theory Spec2Isabelle
  imports Complex_Main "HOL-Library.AList"
begin

section \<open>Python values used by import.py\<close>

text \<open>
  A Python \<open>str\<close> is a sequence of Unicode code points and \<open>len\<close> counts code points,
  so a string is a list of code points (natural numbers), not a list of bytes.
  \<open>lit\<close> turns an ASCII literal of the source into such a list.
\<close>

type_synonym pychar = nat
type_synonym pystr = "pychar list"

definition lit :: "string \<Rightarrow> pystr" where
  "lit s = map of_char s"

text \<open>
  The value \<open>json.load\<close> returns. A number is kept as its literal: the program never
  looks inside one. The payload of \<open>JObj\<close> is the resulting \<open>dict\<close>, as its items in
  insertion order.
\<close>

datatype json =
    JNull
  | JBool bool
  | JNum pystr
  | JStr pystr
  | JArr "json list"
  | JObj "(pystr \<times> json) list"

datatype error =
    OSError pystr
  | JSONDecodeError
  | TypeError
  | KeyError nat
  | UnicodeDecodeError

section \<open>The world and the local variables of main\<close>

text \<open>
  A file that can be opened for reading either decodes, to its text, or does not: then
  reading the whole of it raises \<open>UnicodeDecodeError\<close>, and iterating it yields some lines
  (those of the chunks read before the bad one) and then raises. The file system is a map
  from paths to such contents, and a predicate telling which paths can be opened for
  writing. Everything the run does to the outside is appended to \<open>log\<close>, in the order in
  which it happens; \<open>print\<close> and writing to an opened file are taken not to fail.
\<close>

datatype content =
    Decoded pystr
  | Undecodable "pystr list"

datatype event =
    Open_read pystr
  | Open_write pystr
  | Print pystr
  | Write pystr pystr

record world =
  files :: "pystr \<rightharpoonup> content"
  writable :: "pystr \<Rightarrow> bool"
  log :: "event list"

text \<open>
  The two local variables of \<open>main\<close> that live across the scan. \<open>storage\<close> is a
  \<open>dict\<close>: an association list, since the writer iterates it in insertion order.
\<close>

record frame =
  storage :: "(nat \<times> pystr list) list"
  valid_chars :: "json list"

datatype run =
    Done frame world
  | Raised error world

definition print :: "pystr \<Rightarrow> world \<Rightarrow> world" where
  "print s w = w\<lparr>log := log w @ [Print s]\<rparr>"

definition open_read :: "pystr \<Rightarrow> world \<Rightarrow> error + (content \<times> world)" where
  "open_read p w =
     (case files w p of
        None \<Rightarrow> Inl (OSError p)
      | Some infile \<Rightarrow> Inr (infile, w\<lparr>log := log w @ [Open_read p]\<rparr>))"

text \<open>\<open>infile.read()\<close>, which \<open>json.load\<close> calls first.\<close>

definition read_text :: "content \<Rightarrow> error + pystr" where
  "read_text infile =
     (case infile of
        Decoded s \<Rightarrow> Inr s
      | Undecodable yielded \<Rightarrow> Inl UnicodeDecodeError)"

text \<open>Opening with mode \<open>"wt"\<close> creates the file or truncates it.\<close>

definition open_write :: "pystr \<Rightarrow> world \<Rightarrow> error + world" where
  "open_write p w =
     (if writable w p
      then Inr (w\<lparr>files := (files w)(p \<mapsto> Decoded []), log := log w @ [Open_write p]\<rparr>)
      else Inl (OSError p))"

definition write_text :: "pystr \<Rightarrow> pystr \<Rightarrow> world \<Rightarrow> world" where
  "write_text p s w =
     w\<lparr>files := (files w)(p \<mapsto>
            (case files w p of
               Some (Decoded old) \<Rightarrow> Decoded (old @ s)
             | _ \<Rightarrow> Decoded s)),
       log := log w @ [Write p s]\<rparr>"

section \<open>Library functions the program calls\<close>

subsection \<open>str.strip\<close>

text \<open>The code points for which \<open>str.isspace\<close> holds.\<close>

definition isspace :: "pychar \<Rightarrow> bool" where
  "isspace c \<longleftrightarrow>
     (9 \<le> c \<and> c \<le> 13) \<or> (28 \<le> c \<and> c \<le> 32) \<or> c = 133 \<or> c = 160 \<or> c = 5760 \<or>
     (8192 \<le> c \<and> c \<le> 8202) \<or> c = 8232 \<or> c = 8233 \<or> c = 8239 \<or> c = 8287 \<or> c = 12288"

definition strip :: "pystr \<Rightarrow> pystr" where
  "strip s = rev (dropWhile isspace (rev (dropWhile isspace s)))"

subsection \<open>Iterating a text file\<close>

text \<open>
  A file opened with mode \<open>"rt"\<close> translates \<open>\r\n\<close> and \<open>\r\<close> to \<open>\n\<close>; iterating it
  yields the lines, each with its terminating \<open>\n\<close> (the last one may have none).
\<close>

fun universal_newlines :: "pystr \<Rightarrow> pystr" where
  "universal_newlines [] = []"
| "universal_newlines [c] = [if c = 13 then 10 else c]"
| "universal_newlines (c # d # cs) =
     (if c = 13 \<and> d = 10 then 10 # universal_newlines cs
      else if c = 13 then 10 # universal_newlines (d # cs)
      else c # universal_newlines (d # cs))"

fun split_lines :: "pystr \<Rightarrow> pystr list" where
  "split_lines [] = []"
| "split_lines (c # cs) =
     (if c = 10 then [c] # split_lines cs
      else (case split_lines cs of
              [] \<Rightarrow> [[c]]
            | l # ls \<Rightarrow> (c # l) # ls))"

definition file_lines :: "pystr \<Rightarrow> pystr list" where
  "file_lines text = split_lines (universal_newlines text)"

text \<open>
  \<open>for line in infile\<close>: the lines the loop body gets, and the error that ends the
  iteration, if any.
\<close>

definition iter_lines :: "content \<Rightarrow> pystr list \<times> error option" where
  "iter_lines infile =
     (case infile of
        Decoded s \<Rightarrow> (file_lines s, None)
      | Undecodable yielded \<Rightarrow> (yielded, Some UnicodeDecodeError))"

subsection \<open>Formatting an int, true division, int()\<close>

function str_nat :: "nat \<Rightarrow> pystr" where
  "str_nat n = (if n < 10 then [48 + n] else str_nat (n div 10) @ [48 + n mod 10])"
  by pat_completeness auto
termination
  by (relation "measure id") auto

declare str_nat.simps [simp del]

text \<open>
  \<open>len(line) / 2\<close> is a float. The division is reached only for lengths from 4 to 8,
  where the float is the exact quotient, so it is modelled by the rational quotient.
  \<open>int\<close> of a float truncates towards zero.
\<close>

definition py_truediv :: "nat \<Rightarrow> nat \<Rightarrow> rat" where
  "py_truediv a b = of_nat a / of_nat b"

definition py_int :: "rat \<Rightarrow> int" where
  "py_int x = (if 0 \<le> x then \<lfloor>x\<rfloor> else \<lceil>x\<rceil>)"

subsection \<open>json.dump of a list of str\<close>

text \<open>
  \<open>json.dump\<close> with its defaults (\<open>ensure_ascii=True\<close>, separators \<open>", "\<close>): a string is
  written between double quotes; the backslash, the double quote and the control
  characters with a short escape get it; every other code point outside \<open>' '..'~'\<close> is
  written as \<open>\uXXXX\<close> in lower-case hexadecimal, as a surrogate pair above \<open>0xFFFF\<close>.
\<close>

definition hex_digit :: "nat \<Rightarrow> pychar" where
  "hex_digit d = (if d < 10 then 48 + d else 87 + d)"

definition u_escape :: "nat \<Rightarrow> pystr" where
  "u_escape n =
     [92, 117, hex_digit (n div 4096 mod 16), hex_digit (n div 256 mod 16),
      hex_digit (n div 16 mod 16), hex_digit (n mod 16)]"

definition escape_char :: "pychar \<Rightarrow> pystr" where
  "escape_char c =
     (if c = 92 then [92, 92]
      else if c = 34 then [92, 34]
      else if c = 8 then [92, 98]
      else if c = 12 then [92, 102]
      else if c = 10 then [92, 110]
      else if c = 13 then [92, 114]
      else if c = 9 then [92, 116]
      else if 32 \<le> c \<and> c \<le> 126 then [c]
      else if c < 65536 then u_escape c
      else u_escape (55296 + (c - 65536) div 1024 mod 1024)
             @ u_escape (56320 + (c - 65536) mod 1024))"

definition encode_str :: "pystr \<Rightarrow> pystr" where
  "encode_str s = [34] @ concat (map escape_char s) @ [34]"

fun join_items :: "pystr list \<Rightarrow> pystr" where
  "join_items [] = []"
| "join_items [s] = s"
| "join_items (s # t # ss) = s @ lit '', '' @ join_items (t # ss)"

definition json_dumps :: "pystr list \<Rightarrow> pystr" where
  "json_dumps ws = lit ''['' @ join_items (map encode_str ws) @ lit '']''"

subsection \<open>Iterating a value returned by json.load\<close>

text \<open>
  A list yields its elements, a \<open>str\<close> its characters as one-character strings, a
  \<open>dict\<close> its keys; iterating \<open>None\<close>, a \<open>bool\<close> or a number raises \<open>TypeError\<close>.
\<close>

fun py_iter :: "json \<Rightarrow> error + json list" where
  "py_iter (JArr xs) = Inr xs"
| "py_iter (JStr s) = Inr (map (\<lambda>c. JStr [c]) s)"
| "py_iter (JObj kvs) = Inr (map (\<lambda>kv. JStr (fst kv)) kvs)"
| "py_iter JNull = Inl TypeError"
| "py_iter (JBool b) = Inl TypeError"
| "py_iter (JNum n) = Inl TypeError"

section \<open>main\<close>

text \<open>
  \<^verbatim>\<open>storage = {4: [], 5: [], 6: [], 7: [], 8: []}\<close>
\<close>

definition initial_storage :: "(nat \<times> pystr list) list" where
  "initial_storage = [(4, []), (5, []), (6, []), (7, []), (8, [])]"

text \<open>
  \<^verbatim>\<open>[item for sublist in json.load(infile) for item in sublist if item not in ["\n", "\t"]]\<close>
  The comprehension iterates the loaded value, iterates each of its elements, and keeps
  the items that are not equal to one of the two strings.
\<close>

fun flatten_items :: "json list \<Rightarrow> error + json list" where
  "flatten_items [] = Inr []"
| "flatten_items (sublist # rest) =
     (case py_iter sublist of
        Inl e \<Rightarrow> Inl e
      | Inr items \<Rightarrow>
          (case flatten_items rest of
             Inl e \<Rightarrow> Inl e
           | Inr others \<Rightarrow> Inr (filter (\<lambda>item. item \<notin> set [JStr [10], JStr [9]]) items @ others)))"

definition comprehension :: "json \<Rightarrow> error + json list" where
  "comprehension doc =
     (case py_iter doc of
        Inl e \<Rightarrow> Inl e
      | Inr sublists \<Rightarrow> flatten_items sublists)"

text \<open>
  The first \<open>with\<close> block. \<open>loads\<close> is the JSON parser of the library, a parameter of
  the model: it gives \<open>None\<close> where \<open>json.load\<close> raises \<open>JSONDecodeError\<close>.
\<close>

definition layout_path :: "pystr \<Rightarrow> pystr \<Rightarrow> pystr" where
  "layout_path language keyboard = language @ lit ''/'' @ keyboard @ lit ''.json''"

definition load_valid_chars ::
  "(pystr \<Rightarrow> json option) \<Rightarrow> pystr \<Rightarrow> pystr \<Rightarrow> world \<Rightarrow> (error + json list) \<times> world" where
  "load_valid_chars loads language keyboard w =
     (case open_read (layout_path language keyboard) w of
        Inl e \<Rightarrow> (Inl e, w)
      | Inr (infile, w') \<Rightarrow>
          (case read_text infile of
             Inl e \<Rightarrow> (Inl e, w')
           | Inr text \<Rightarrow>
               (case loads text of
                  None \<Rightarrow> (Inl JSONDecodeError, w')
                | Some doc \<Rightarrow> (comprehension doc, w'))))"

text \<open>The body of the scan loop, for one line of the word list.\<close>

definition scan_line :: "pystr \<Rightarrow> frame \<Rightarrow> world \<Rightarrow> run" where
  "scan_line raw fr w =
     (let line = strip raw in
      if length line < 4 \<or> length line > 8 then Done fr w
      else if \<not> list_all (\<lambda>char. JStr [char] \<in> set (valid_chars fr)) line
        then Done fr (print (lit ''Skipping '' @ line @ lit '' for invalid chars'') w)
      else if int (card (set line)) \<le> py_int (py_truediv (length line) 2)
        then Done fr (print (lit ''Skipping '' @ line @ lit '' for not enough unique letters'') w)
      else (case map_of (storage fr) (length line) of
              None \<Rightarrow> Raised (KeyError (length line)) w
            | Some bucket \<Rightarrow>
                Done (fr\<lparr>storage := AList.update (length line) (bucket @ [line]) (storage fr)\<rparr>) w))"

fun scan :: "pystr list \<Rightarrow> frame \<Rightarrow> world \<Rightarrow> run" where
  "scan [] fr w = Done fr w"
| "scan (raw # rest) fr w =
     (case scan_line raw fr w of
        Raised e w' \<Rightarrow> Raised e w'
      | Done fr' w' \<Rightarrow> scan rest fr' w')"

text \<open>The body of the writer loop, for one key of \<open>storage\<close>.\<close>

definition output_path :: "pystr \<Rightarrow> nat \<Rightarrow> pystr" where
  "output_path language len = language @ lit ''/length'' @ str_nat len @ lit ''.json''"

definition write_bucket :: "pystr \<Rightarrow> nat \<Rightarrow> frame \<Rightarrow> world \<Rightarrow> run" where
  "write_bucket language len fr w =
     (case open_write (output_path language len) w of
        Inl e \<Rightarrow> Raised e w
      | Inr w1 \<Rightarrow>
          (case map_of (storage fr) len of
             None \<Rightarrow> Raised (KeyError len) w1
           | Some bucket \<Rightarrow>
               Done fr
                 (write_text (output_path language len) (json_dumps bucket)
                   (print (lit ''Writing '' @ str_nat (length bucket) @ lit '' words of length ''
                             @ str_nat len @ lit ''.'') w1))))"

fun write_buckets :: "pystr \<Rightarrow> nat list \<Rightarrow> frame \<Rightarrow> world \<Rightarrow> run" where
  "write_buckets language [] fr w = Done fr w"
| "write_buckets language (len # rest) fr w =
     (case write_bucket language len fr w of
        Raised e w' \<Rightarrow> Raised e w'
      | Done fr' w' \<Rightarrow> write_buckets language rest fr' w')"

definition main :: "(pystr \<Rightarrow> json option) \<Rightarrow> pystr \<Rightarrow> pystr \<Rightarrow> pystr \<Rightarrow> world \<Rightarrow> run" where
  "main loads language keyboard path w =
     (case load_valid_chars loads language keyboard w of
        (Inl e, w1) \<Rightarrow> Raised e w1
      | (Inr chars, w1) \<Rightarrow>
          (case open_read path w1 of
             Inl e \<Rightarrow> Raised e w1
           | Inr (infile, w2) \<Rightarrow>
               (case iter_lines infile of
                  (raws, failure) \<Rightarrow>
                    (case scan raws \<lparr>storage = initial_storage, valid_chars = chars\<rparr> w2 of
                       Raised e w3 \<Rightarrow> Raised e w3
                     | Done fr w3 \<Rightarrow>
                         (case failure of
                            Some e \<Rightarrow> Raised e w3
                          | None \<Rightarrow> write_buckets language (map fst (storage fr)) fr w3)))))"

text \<open>An unhandled exception ends the interpreter with status 1; returning from main, 0.\<close>

fun exit_status :: "run \<Rightarrow> nat" where
  "exit_status (Done fr w) = 0"
| "exit_status (Raised e w) = 1"

section \<open>The properties, in the words of the specification\<close>

text \<open>
  A trimmed word is accepted when its length is from 4 to 8, each of its characters is in
  the valid-character collection, and it has more than half of its length (rounded down)
  in distinct characters.
\<close>

definition accepted :: "json list \<Rightarrow> pystr \<Rightarrow> bool" where
  "accepted chars word \<longleftrightarrow>
     4 \<le> length word \<and> length word \<le> 8 \<and>
     list_all (\<lambda>c. JStr [c] \<in> set chars) word \<and>
     length word div 2 < card (set word)"

text \<open>The words of a bucket: the trimmed lines of that length that are accepted.\<close>

definition bucket_of :: "json list \<Rightarrow> nat \<Rightarrow> pystr list \<Rightarrow> pystr list" where
  "bucket_of chars n raws =
     filter (\<lambda>word. length word = n \<and> accepted chars word) (map strip raws)"

text \<open>The diagnostic lines one trimmed word gives rise to.\<close>

definition diagnostic :: "json list \<Rightarrow> pystr \<Rightarrow> pystr list" where
  "diagnostic chars word =
     (if length word < 4 \<or> 8 < length word then []
      else if \<not> list_all (\<lambda>c. JStr [c] \<in> set chars) word
        then [lit ''Skipping '' @ word @ lit '' for invalid chars'']
      else if card (set word) \<le> length word div 2
        then [lit ''Skipping '' @ word @ lit '' for not enough unique letters'']
      else [])"

definition diagnostics :: "json list \<Rightarrow> pystr list \<Rightarrow> pystr list" where
  "diagnostics chars raws = concat (map (\<lambda>raw. diagnostic chars (strip raw)) raws)"

text \<open>The bucket map at the end of the scan, keys in the order of their insertion.\<close>

definition scanned_storage :: "json list \<Rightarrow> pystr list \<Rightarrow> (nat \<times> pystr list) list" where
  "scanned_storage chars raws = map (\<lambda>n. (n, bucket_of chars n raws)) [4, 5, 6, 7, 8]"

text \<open>The table of the specification: the least number of distinct characters.\<close>

definition min_unique :: "nat \<Rightarrow> nat" where
  "min_unique len =
     (if len = 4 then 3 else if len = 5 then 3 else if len = 6 then 4
      else if len = 7 then 4 else 5)"

text \<open>Every word of every bucket is accepted and sits under its own length.\<close>

definition bucket_invariant :: "json list \<Rightarrow> (nat \<times> pystr list) list \<Rightarrow> bool" where
  "bucket_invariant chars st =
     list_all (\<lambda>(k, bucket). list_all (\<lambda>word. accepted chars word \<and> length word = k) bucket) st"

text \<open>What writing one bucket does, in order: open, summary line, contents.\<close>

definition file_events :: "pystr \<Rightarrow> nat \<Rightarrow> pystr list \<Rightarrow> event list" where
  "file_events language n bucket =
     [Open_write (output_path language n),
      Print (lit ''Writing '' @ str_nat (length bucket) @ lit '' words of length ''
               @ str_nat n @ lit ''.''),
      Write (output_path language n) (json_dumps bucket)]"

definition written :: "pystr \<Rightarrow> (nat \<times> pystr list) list \<Rightarrow> nat list \<Rightarrow> world \<Rightarrow> world" where
  "written language st ns w =
     w\<lparr>files := fold (\<lambda>n f. f(output_path language n \<mapsto> Decoded (json_dumps (the (map_of st n)))))
                ns (files w),
       log := log w @ concat (map (\<lambda>n. file_events language n (the (map_of st n))) ns)\<rparr>"

text \<open>The world when the scan ends: both files opened, the diagnostics printed.\<close>

definition scanned :: "pystr \<Rightarrow> pystr \<Rightarrow> pystr \<Rightarrow> json list \<Rightarrow> pystr \<Rightarrow> world \<Rightarrow> world" where
  "scanned language keyboard path chars text w =
     w\<lparr>log := log w @ Open_read (layout_path language keyboard) # Open_read path
                    # map Print (diagnostics chars (file_lines text))\<rparr>"

fun final_world :: "run \<Rightarrow> world" where
  "final_world (Done fr w) = w"
| "final_world (Raised e w) = w"

text \<open>
  The loaded values the comprehension can flatten: a list whose elements are lists, strings
  or dicts; a string (its characters are strings); a dict (its keys are strings).
\<close>

definition is_container :: "json \<Rightarrow> bool" where
  "is_container j = (case j of JArr xs \<Rightarrow> True | JStr s \<Rightarrow> True | JObj kvs \<Rightarrow> True | _ \<Rightarrow> False)"

definition flattenable :: "json \<Rightarrow> bool" where
  "flattenable doc =
     (case doc of
        JArr xs \<Rightarrow> list_all is_container xs
      | JStr s \<Rightarrow> True
      | JObj kvs \<Rightarrow> True
      | _ \<Rightarrow> False)"

text \<open>What a run shows to the outside: the error that ended it, if any, and its log.\<close>

fun outcome :: "run \<Rightarrow> error option \<times> event list" where
  "outcome (Done fr w) = (None, log w)"
| "outcome (Raised e w) = (Some e, log w)"

definition is_open_read :: "event \<Rightarrow> bool" where
  "is_open_read ev = (case ev of Open_read p \<Rightarrow> True | _ \<Rightarrow> False)"

section \<open>A small run: the scenarios of the specification\<close>

text \<open>
  The layout file holds two rows, \<open>a b c\<close> with a newline key and \<open>d e r\<close> with a tab
  key; the word list holds the five lines \<open>cabbed\<close>, \<open> abba \<close>, \<open>caved\<close>, \<open>hi\<close>
  and \<open>deadbeer\<close>.
\<close>

definition example_layout :: pystr where
  "example_layout =
     [91, 91, 34, 97, 34, 44, 32, 34, 98, 34, 44, 32, 34, 99, 34, 44, 32, 34, 92, 110, 34,
      93, 44, 32, 91, 34, 100, 34, 44, 32, 34, 101, 34, 44, 32, 34, 114, 34, 44, 32, 34,
      92, 116, 34, 93, 93]"

definition example_doc :: json where
  "example_doc =
     JArr [JArr [JStr (lit ''a''), JStr (lit ''b''), JStr (lit ''c''), JStr [10]],
           JArr [JStr (lit ''d''), JStr (lit ''e''), JStr (lit ''r''), JStr [9]]]"

definition example_loads :: "pystr \<Rightarrow> json option" where
  "example_loads text = (if text = example_layout then Some example_doc else None)"

definition example_chars :: "json list" where
  "example_chars = map (\<lambda>c. JStr [c]) (lit ''abcder'')"

definition example_words :: pystr where
  "example_words =
     lit ''cabbed'' @ [13, 10] @ lit '' abba '' @ [10] @ lit ''caved'' @ [10] @ lit ''hi''
       @ [10] @ lit ''deadbeer'' @ [10]"

definition example_world :: world where
  "example_world =
     \<lparr>files = [lit ''en/qwerty.json'' \<mapsto> Decoded example_layout,
               lit ''words.txt'' \<mapsto> Decoded example_words],
      writable = (\<lambda>p. True),
      log = []\<rparr>"

section \<open>The scan loop\<close>

lemma py_int_truediv_2: "py_int (py_truediv n 2) = int (n div 2)"
proof -
  have "\<lfloor>(of_nat n :: rat) / of_nat 2\<rfloor> = int (n div 2)"
    by (rule floor_divide_of_nat_eq)
  then show ?thesis
    by (simp add: py_int_def py_truediv_def)
qed

lemma map_of_keys: "k \<in> fst ` set al \<Longrightarrow> \<exists>v. map_of al k = Some v"
  by (cases "map_of al k") (auto simp: map_of_eq_None_iff)

lemma accepted_range: "accepted chars word \<Longrightarrow> length word \<in> {4..8}"
  by (simp add: accepted_def)

lemma scan_line_step:
  assumes "length (strip raw) \<in> fst ` set (storage fr) \<or> \<not> accepted (valid_chars fr) (strip raw)"
  shows "scan_line raw fr w =
     Done (if accepted (valid_chars fr) (strip raw)
           then fr\<lparr>storage := AList.update (length (strip raw))
                     (the (map_of (storage fr) (length (strip raw))) @ [strip raw]) (storage fr)\<rparr>
           else fr)
          (w\<lparr>log := log w @ map Print (diagnostic (valid_chars fr) (strip raw))\<rparr>)"
proof (cases "accepted (valid_chars fr) (strip raw)")
  case True
  with assms obtain b where "map_of (storage fr) (length (strip raw)) = Some b"
    using map_of_keys by fastforce
  with True show ?thesis
    by (simp add: scan_line_def accepted_def diagnostic_def py_int_truediv_2 Let_def)
next
  case False
  then show ?thesis
    by (auto simp: scan_line_def accepted_def diagnostic_def py_int_truediv_2 Let_def print_def)
qed

lemma scan_result:
  assumes "{4..8} \<subseteq> fst ` set (storage fr)"
  shows "\<exists>fr'. scan raws fr w =
            Done fr' (w\<lparr>log := log w @ map Print (diagnostics (valid_chars fr) raws)\<rparr>)
          \<and> valid_chars fr' = valid_chars fr
          \<and> map fst (storage fr') = map fst (storage fr)
          \<and> (\<forall>k b. map_of (storage fr) k = Some b \<longrightarrow>
                map_of (storage fr') k = Some (b @ bucket_of (valid_chars fr) k raws))"
  using assms
proof (induction raws arbitrary: fr w)
  case Nil
  then show ?case by (simp add: bucket_of_def diagnostics_def)
next
  case (Cons raw raws)
  let ?line = "strip raw"
  let ?fr1 = "if accepted (valid_chars fr) ?line
           then fr\<lparr>storage := AList.update (length ?line)
                     (the (map_of (storage fr) (length ?line)) @ [?line]) (storage fr)\<rparr>
           else fr"
  let ?w1 = "w\<lparr>log := log w @ map Print (diagnostic (valid_chars fr) ?line)\<rparr>"
  have key: "length ?line \<in> fst ` set (storage fr) \<or> \<not> accepted (valid_chars fr) ?line"
    using Cons.prems accepted_range by blast
  have step: "scan_line raw fr w = Done ?fr1 ?w1"
    using scan_line_step [OF key] .
  have vc1: "valid_chars ?fr1 = valid_chars fr" by simp
  have keys1: "map fst (storage ?fr1) = map fst (storage fr)"
    using key by (auto simp: update_keys)
  then have "set (map fst (storage ?fr1)) = set (map fst (storage fr))" by simp
  then have dom1: "{4..8} \<subseteq> fst ` set (storage ?fr1)"
    using Cons.prems by (simp only: set_map)
  from Cons.IH [OF dom1, of ?w1] obtain fr' where
    run: "scan raws ?fr1 ?w1 = Done fr' (?w1\<lparr>log := log ?w1 @ map Print (diagnostics (valid_chars ?fr1) raws)\<rparr>)"
    and vc: "valid_chars fr' = valid_chars ?fr1"
    and keys: "map fst (storage fr') = map fst (storage ?fr1)"
    and buckets: "\<forall>k b. map_of (storage ?fr1) k = Some b \<longrightarrow>
                map_of (storage fr') k = Some (b @ bucket_of (valid_chars ?fr1) k raws)"
    by blast
  have "scan (raw # raws) fr w = Done fr' (w\<lparr>log := log w @ map Print (diagnostics (valid_chars fr) (raw # raws))\<rparr>)"
    using step run by (simp only: scan.simps run.case vc1) (simp add: diagnostics_def)
  moreover have "valid_chars fr' = valid_chars fr" using vc vc1 by simp
  moreover have "map fst (storage fr') = map fst (storage fr)" using keys keys1 by simp
  moreover have "\<forall>k b. map_of (storage fr) k = Some b \<longrightarrow>
                map_of (storage fr') k = Some (b @ bucket_of (valid_chars fr) k (raw # raws))"
  proof (intro allI impI)
    fix k b assume kb: "map_of (storage fr) k = Some b"
    show "map_of (storage fr') k = Some (b @ bucket_of (valid_chars fr) k (raw # raws))"
    proof (cases "accepted (valid_chars fr) ?line \<and> length ?line = k")
      case True
      then have "map_of (storage ?fr1) k = Some (b @ [?line])"
        using kb by (simp add: update_conv')
      with buckets have "map_of (storage fr') k = Some ((b @ [?line]) @ bucket_of (valid_chars ?fr1) k raws)"
        by blast
      with True show ?thesis by (simp add: bucket_of_def)
    next
      case False
      then have "map_of (storage ?fr1) k = Some b"
        using kb by (auto simp: update_conv')
      with buckets have "map_of (storage fr') k = Some (b @ bucket_of (valid_chars ?fr1) k raws)"
        by blast
      with False show ?thesis by (auto simp: bucket_of_def)
    qed
  qed
  ultimately show ?case by blast
qed

lemma alist_by_keys:
  "distinct (map fst al) \<Longrightarrow> map (\<lambda>k. (k, the (map_of al k))) (map fst al) = al"
proof (induction al)
  case Nil
  then show ?case by simp
next
  case (Cons p al)
  from Cons.prems have "fst p \<notin> set (map fst al)" by simp
  then have "\<forall>k \<in> set (map fst al). k \<noteq> fst p" by blast
  then have "map (\<lambda>k. (k, the (map_of (p # al) k))) (map fst al)
           = map (\<lambda>k. (k, the (map_of al k))) (map fst al)"
    by (intro map_cong) auto
  also have "\<dots> = al" using Cons by simp
  finally have "map (\<lambda>k. (k, the (map_of (p # al) k))) (map fst al) = al" .
  then have "(fst p, the (map_of (p # al) (fst p)))
               # map (\<lambda>k. (k, the (map_of (p # al) k))) (map fst al) = p # al"
    by simp
  then show ?case by (simp only: list.map)
qed

lemma range_4_8: "{4..8::nat} = {4, 5, 6, 7, 8}"
  by auto

lemma scan_initial:
  "scan raws \<lparr>storage = initial_storage, valid_chars = chars\<rparr> w =
     Done \<lparr>storage = scanned_storage chars raws, valid_chars = chars\<rparr>
          (w\<lparr>log := log w @ map Print (diagnostics chars raws)\<rparr>)"
proof -
  let ?fr = "\<lparr>storage = initial_storage, valid_chars = chars\<rparr>"
  have "{4..8} \<subseteq> fst ` set (storage ?fr)"
    by (simp add: initial_storage_def range_4_8)
  from scan_result [OF this, of raws w] have
    "\<exists>fr'. scan raws ?fr w = Done fr' (w\<lparr>log := log w @ map Print (diagnostics chars raws)\<rparr>)
          \<and> valid_chars fr' = chars
          \<and> map fst (storage fr') = map fst initial_storage
          \<and> (\<forall>k b. map_of initial_storage k = Some b \<longrightarrow>
                map_of (storage fr') k = Some (b @ bucket_of chars k raws))"
    by simp
  then obtain fr' where
    run: "scan raws ?fr w = Done fr' (w\<lparr>log := log w @ map Print (diagnostics chars raws)\<rparr>)"
    and vc: "valid_chars fr' = chars"
    and keys0: "map fst (storage fr') = map fst initial_storage"
    and buckets: "\<forall>k b. map_of initial_storage k = Some b \<longrightarrow>
                map_of (storage fr') k = Some (b @ bucket_of chars k raws)"
    by blast
  have keys: "map fst (storage fr') = [4, 5, 6, 7, 8]"
    using keys0 by (simp add: initial_storage_def)
  have "\<forall>k \<in> set [4, 5, 6, 7, 8]. the (map_of (storage fr') k) = bucket_of chars k raws"
    using buckets by (simp add: initial_storage_def)
  then have "map (\<lambda>k. (k, the (map_of (storage fr') k))) [4, 5, 6, 7, 8] = scanned_storage chars raws"
    unfolding scanned_storage_def by (intro map_cong) auto
  moreover have "map (\<lambda>k. (k, the (map_of (storage fr') k))) (map fst (storage fr')) = storage fr'"
    by (rule alist_by_keys) (simp add: keys)
  ultimately have "storage fr' = scanned_storage chars raws"
    by (simp add: keys)
  with vc have "fr' = \<lparr>storage = scanned_storage chars raws, valid_chars = chars\<rparr>"
    by (cases fr') simp
  with run show ?thesis by simp
qed

section \<open>The writer and the whole run\<close>

lemma written_Nil: "written language st [] w = w"
  by (simp add: written_def)

lemma written_Cons:
  "written language st (n # ns) w = written language st ns (written language st [n] w)"
  by (simp add: written_def)

lemma written_append:
  "written language st (ms @ ns) w = written language st ns (written language st ms w)"
  by (simp add: written_def)

lemma writable_written: "writable (written language st ns w) = writable w"
  by (simp add: written_def)

lemma log_written:
  "log (written language st ns w) =
     log w @ concat (map (\<lambda>n. file_events language n (the (map_of st n))) ns)"
  by (simp add: written_def)

lemma write_bucket_ok:
  assumes "writable w (output_path language n)" and "map_of (storage fr) n = Some b"
  shows "write_bucket language n fr w = Done fr (written language (storage fr) [n] w)"
  using assms
  by (simp add: write_bucket_def open_write_def write_text_def print_def written_def
      file_events_def)

lemma write_bucket_fail:
  assumes "\<not> writable w (output_path language n)"
  shows "write_bucket language n fr w = Raised (OSError (output_path language n)) w"
  using assms by (simp add: write_bucket_def open_write_def)

lemma write_buckets_ok:
  assumes "\<forall>n \<in> set ns. writable w (output_path language n) \<and> n \<in> fst ` set (storage fr)"
  shows "write_buckets language ns fr w = Done fr (written language (storage fr) ns w)"
  using assms
proof (induction ns arbitrary: w)
  case Nil
  then show ?case by (simp add: written_Nil)
next
  case (Cons n ns)
  then obtain b where b: "map_of (storage fr) n = Some b"
    using map_of_keys [of n "storage fr"] by auto
  have step: "write_bucket language n fr w = Done fr (written language (storage fr) [n] w)"
    using Cons.prems b by (intro write_bucket_ok) auto
  have "\<forall>m \<in> set ns. writable (written language (storage fr) [n] w) (output_path language m)
           \<and> m \<in> fst ` set (storage fr)"
    using Cons.prems by (simp add: writable_written)
  from Cons.IH [OF this] step show ?case
    by (simp add: written_Cons [of language "storage fr" n ns w])
qed

lemma write_buckets_append:
  "write_buckets language (ms @ ns) fr w =
     (case write_buckets language ms fr w of
        Raised e w' \<Rightarrow> Raised e w'
      | Done fr' w' \<Rightarrow> write_buckets language ns fr' w')"
  by (induction ms arbitrary: fr w) (auto split: run.splits)

lemma write_buckets_stop:
  assumes "\<forall>m \<in> set ms. writable w (output_path language m) \<and> m \<in> fst ` set (storage fr)"
    and "\<not> writable w (output_path language n)"
  shows "write_buckets language (ms @ n # ns) fr w =
           Raised (OSError (output_path language n)) (written language (storage fr) ms w)"
proof -
  have "\<not> writable (written language (storage fr) ms w) (output_path language n)"
    using assms(2) by (simp add: writable_written)
  then show ?thesis
    by (simp add: write_buckets_append write_buckets_ok [OF assms(1)] write_bucket_fail)
qed

lemma load_valid_chars_eq:
  "load_valid_chars loads language keyboard w =
     (case files w (layout_path language keyboard) of
        None \<Rightarrow> (Inl (OSError (layout_path language keyboard)), w)
      | Some infile \<Rightarrow>
          (case infile of
             Undecodable yielded \<Rightarrow> Inl UnicodeDecodeError
           | Decoded layout \<Rightarrow>
               (case loads layout of
                  None \<Rightarrow> Inl JSONDecodeError
                | Some doc \<Rightarrow> comprehension doc),
           w\<lparr>log := log w @ [Open_read (layout_path language keyboard)]\<rparr>))"
  by (simp add: load_valid_chars_def open_read_def read_text_def
      split: option.splits content.splits)

lemma output_path_inj:
  "n < 10 \<Longrightarrow> m < 10 \<Longrightarrow> output_path language n = output_path language m \<longleftrightarrow> n = m"
  by (simp add: output_path_def str_nat.simps)

lemma output_path_names:
  "map (output_path language) [4, 5, 6, 7, 8] =
     map (\<lambda>name. language @ lit name)
       [''/length4.json'', ''/length5.json'', ''/length6.json'', ''/length7.json'',
        ''/length8.json'']"
  by (simp add: output_path_def str_nat.simps lit_def)

lemma files_written_five:
  "files (written language st [4, 5, 6, 7, 8] w) =
     (files w)(output_path language 4 \<mapsto> Decoded (json_dumps (the (map_of st 4))),
               output_path language 5 \<mapsto> Decoded (json_dumps (the (map_of st 5))),
               output_path language 6 \<mapsto> Decoded (json_dumps (the (map_of st 6))),
               output_path language 7 \<mapsto> Decoded (json_dumps (the (map_of st 7))),
               output_path language 8 \<mapsto> Decoded (json_dumps (the (map_of st 8))))"
  by (simp add: written_def)

lemma files_written_five_at:
  assumes "n \<in> {4..8}"
  shows "files (written language st [4, 5, 6, 7, 8] w) (output_path language n) =
           Some (Decoded (json_dumps (the (map_of st n))))"
proof -
  from assms have "n = 4 \<or> n = 5 \<or> n = 6 \<or> n = 7 \<or> n = 8" by auto
  then show ?thesis
    unfolding files_written_five by (elim disjE) (simp_all add: output_path_inj)
qed

lemma files_written_other:
  assumes "p \<notin> output_path language ` set ns"
  shows "files (written language st ns w) p = files w p"
  using assms
proof (induction ns arbitrary: w)
  case Nil
  then show ?case by (simp add: written_Nil)
next
  case (Cons n ns)
  then have "files (written language st ns (written language st [n] w)) p
               = files (written language st [n] w) p"
    by simp
  also have "\<dots> = files w p"
    using Cons.prems by (auto simp: written_def)
  finally show ?case by (simp add: written_Cons [of language st n ns w])
qed

lemma write_buckets_eq:
  assumes "set ns \<subseteq> fst ` set (storage fr)"
  shows "write_buckets language ns fr w =
     (case dropWhile (\<lambda>n. writable w (output_path language n)) ns of
        [] \<Rightarrow> Done fr (written language (storage fr) ns w)
      | n # rest \<Rightarrow>
          Raised (OSError (output_path language n))
            (written language (storage fr)
               (takeWhile (\<lambda>n. writable w (output_path language n)) ns) w))"
proof (cases "dropWhile (\<lambda>n. writable w (output_path language n)) ns")
  case Nil
  then have "\<forall>n \<in> set ns. writable w (output_path language n) \<and> n \<in> fst ` set (storage fr)"
    using assms by auto
  from write_buckets_ok [OF this] show ?thesis by (simp only: Nil list.case)
next
  case (Cons n rest)
  let ?ms = "takeWhile (\<lambda>n. writable w (output_path language n)) ns"
  from Cons have split: "ns = ?ms @ n # rest" and bad: "\<not> writable w (output_path language n)"
    by (simp_all add: dropWhile_eq_Cons_conv)
  have "\<forall>m \<in> set ?ms. writable w (output_path language m) \<and> m \<in> fst ` set (storage fr)"
    using assms set_takeWhileD [of _ "\<lambda>n. writable w (output_path language n)" ns] by blast
  from write_buckets_stop [OF this bad, of rest] split show ?thesis
    by (simp only: Cons list.case)
qed

lemma main_cases:
  "main loads language keyboard path w =
     (case files w (layout_path language keyboard) of
        None \<Rightarrow> Raised (OSError (layout_path language keyboard)) w
      | Some (Undecodable yielded) \<Rightarrow>
          Raised UnicodeDecodeError
            (w\<lparr>log := log w @ [Open_read (layout_path language keyboard)]\<rparr>)
      | Some (Decoded layout) \<Rightarrow>
          (case loads layout of
             None \<Rightarrow>
               Raised JSONDecodeError (w\<lparr>log := log w @ [Open_read (layout_path language keyboard)]\<rparr>)
           | Some doc \<Rightarrow>
               (case comprehension doc of
                  Inl e \<Rightarrow> Raised e (w\<lparr>log := log w @ [Open_read (layout_path language keyboard)]\<rparr>)
                | Inr chars \<Rightarrow>
                    (case files w path of
                       None \<Rightarrow>
                         Raised (OSError path)
                           (w\<lparr>log := log w @ [Open_read (layout_path language keyboard)]\<rparr>)
                     | Some (Undecodable yielded) \<Rightarrow>
                         Raised UnicodeDecodeError
                           (w\<lparr>log := log w @ Open_read (layout_path language keyboard)
                                   # Open_read path # map Print (diagnostics chars yielded)\<rparr>)
                     | Some (Decoded content) \<Rightarrow>
                         write_buckets language [4, 5, 6, 7, 8]
                           \<lparr>storage = scanned_storage chars (file_lines content), valid_chars = chars\<rparr>
                           (scanned language keyboard path chars content w)))))"
proof -
  have keys: "map fst (scanned_storage chars raws) = [4, 5, 6, 7, 8]" for chars raws
    by (simp add: scanned_storage_def)
  show ?thesis
    by (simp add: main_def load_valid_chars_eq open_read_def iter_lines_def scan_initial keys
        scanned_def split: option.splits sum.splits content.splits)
qed

lemma write_buckets_scanned:
  "write_buckets language [4, 5, 6, 7, 8]
     \<lparr>storage = scanned_storage chars raws, valid_chars = chars\<rparr> w =
     (case dropWhile (\<lambda>n. writable w (output_path language n)) [4, 5, 6, 7, 8] of
        [] \<Rightarrow> Done \<lparr>storage = scanned_storage chars raws, valid_chars = chars\<rparr>
                (written language (scanned_storage chars raws) [4, 5, 6, 7, 8] w)
      | n # rest \<Rightarrow>
          Raised (OSError (output_path language n))
            (written language (scanned_storage chars raws)
               (takeWhile (\<lambda>n. writable w (output_path language n)) [4, 5, 6, 7, 8]) w))"
proof -
  let ?fr = "\<lparr>storage = scanned_storage chars raws, valid_chars = chars\<rparr>"
  have "set [4, 5, 6, 7, 8] \<subseteq> fst ` set (storage ?fr)"
    by (simp add: scanned_storage_def)
  from write_buckets_eq [OF this, of language w] show ?thesis
    by (simp only: frame.simps)
qed

lemma main_outcome:
  "outcome (main loads language keyboard path w) =
     (case files w (layout_path language keyboard) of
        None \<Rightarrow> (Some (OSError (layout_path language keyboard)), log w)
      | Some (Undecodable yielded) \<Rightarrow>
          (Some UnicodeDecodeError, log w @ [Open_read (layout_path language keyboard)])
      | Some (Decoded layout) \<Rightarrow>
          (case loads layout of
             None \<Rightarrow> (Some JSONDecodeError, log w @ [Open_read (layout_path language keyboard)])
           | Some doc \<Rightarrow>
               (case comprehension doc of
                  Inl e \<Rightarrow> (Some e, log w @ [Open_read (layout_path language keyboard)])
                | Inr chars \<Rightarrow>
                    (case files w path of
                       None \<Rightarrow> (Some (OSError path), log w @ [Open_read (layout_path language keyboard)])
                     | Some (Undecodable yielded) \<Rightarrow>
                         (Some UnicodeDecodeError,
                          log w @ Open_read (layout_path language keyboard) # Open_read path
                            # map Print (diagnostics chars yielded))
                     | Some (Decoded content) \<Rightarrow>
                         (case dropWhile (\<lambda>n. writable w (output_path language n)) [4, 5, 6, 7, 8] of
                            [] \<Rightarrow> None
                          | n # rest \<Rightarrow> Some (OSError (output_path language n)),
                          log w @ Open_read (layout_path language keyboard) # Open_read path
                            # map Print (diagnostics chars (file_lines content))
                            @ concat (map (\<lambda>n. file_events language n
                                             (bucket_of chars n (file_lines content)))
                                (takeWhile (\<lambda>n. writable w (output_path language n)) [4, 5, 6, 7, 8])))))))"
proof (cases "files w (layout_path language keyboard)")
  case None
  then show ?thesis by (simp add: main_cases)
next
  case (Some infile)
  show ?thesis
  proof (cases infile)
    case (Undecodable yielded)
    with Some show ?thesis by (simp add: main_cases)
  next
    case (Decoded layout)
    with Some have layout: "files w (layout_path language keyboard) = Some (Decoded layout)"
      by simp
    show ?thesis
    proof (cases "loads layout")
      case None
      with layout show ?thesis by (simp add: main_cases)
    next
      case doc: (Some doc)
      show ?thesis
      proof (cases "comprehension doc")
        case (Inl e)
        with layout doc show ?thesis by (simp add: main_cases)
      next
        case chars: (Inr chars)
        show ?thesis
        proof (cases "files w path")
          case None
          with layout doc chars show ?thesis by (simp add: main_cases)
        next
          case words: (Some words)
          show ?thesis
          proof (cases words)
            case (Undecodable yielded)
            with layout doc chars words show ?thesis by (simp add: main_cases)
          next
            case (Decoded content)
            with words have content: "files w path = Some (Decoded content)"
              by simp
            let ?raws = "file_lines content"
            let ?w = "scanned language keyboard path chars content w"
            let ?P = "\<lambda>n. writable w (output_path language n)"
            have wr: "writable ?w = writable w"
              by (simp add: scanned_def)
            have lg: "log ?w = log w @ Open_read (layout_path language keyboard) # Open_read path
                        # map Print (diagnostics chars ?raws)"
              by (simp add: scanned_def)
            have ev: "map (\<lambda>n. file_events language n (the (map_of (scanned_storage chars ?raws) n)))
                        (takeWhile ?P [4, 5, 6, 7, 8])
                   = map (\<lambda>n. file_events language n (bucket_of chars n ?raws))
                        (takeWhile ?P [4, 5, 6, 7, 8])"
              by (intro map_cong refl) (auto dest!: set_takeWhileD simp: scanned_storage_def)
            have run: "main loads language keyboard path w =
                write_buckets language [4, 5, 6, 7, 8]
                  \<lparr>storage = scanned_storage chars ?raws, valid_chars = chars\<rparr> ?w"
              using layout doc chars content by (simp add: main_cases)
            show ?thesis
            proof (cases "dropWhile ?P [4, 5, 6, 7, 8]")
              case Nil
              then have tw: "takeWhile ?P [4, 5, 6, 7, 8] = [4, 5, 6, 7, 8]"
                by (simp only: dropWhile_eq_Nil_conv takeWhile_eq_all_conv)
              have ev5: "map (\<lambda>n. file_events language n
                                   (the (map_of (scanned_storage chars ?raws) n))) [4, 5, 6, 7, 8]
                   = map (\<lambda>n. file_events language n (bucket_of chars n ?raws)) [4, 5, 6, 7, 8]"
                using ev unfolding tw .
              have "outcome (main loads language keyboard path w) =
                      (None, log ?w @ concat (map (\<lambda>n. file_events language n
                                   (the (map_of (scanned_storage chars ?raws) n))) [4, 5, 6, 7, 8]))"
                unfolding run write_buckets_scanned wr
                by (simp only: Nil list.case outcome.simps log_written)
              then show ?thesis
                unfolding ev5 lg
                by (simp only: layout doc chars content Nil tw option.case sum.case list.case
                    content.case append_Cons append_assoc)
            next
              case (Cons n rest)
              have "outcome (main loads language keyboard path w) =
                      (Some (OSError (output_path language n)),
                       log ?w @ concat (map (\<lambda>n. file_events language n
                                   (the (map_of (scanned_storage chars ?raws) n)))
                                     (takeWhile ?P [4, 5, 6, 7, 8])))"
                unfolding run write_buckets_scanned wr
                by (simp only: Cons list.case outcome.simps log_written)
              then show ?thesis
                unfolding ev lg
                by (simp only: layout doc chars content Cons option.case sum.case list.case
                    content.case append_Cons append_assoc)
            qed
          qed
        qed
      qed
    qed
  qed
qed

lemma main_Done:
  assumes "files w (layout_path language keyboard) = Some (Decoded layout)"
    and "loads layout = Some doc"
    and "comprehension doc = Inr chars"
    and "files w path = Some (Decoded content)"
    and "\<forall>n \<in> {4..8}. writable w (output_path language n)"
  shows "main loads language keyboard path w =
           Done \<lparr>storage = scanned_storage chars (file_lines content), valid_chars = chars\<rparr>
             (written language (scanned_storage chars (file_lines content)) [4, 5, 6, 7, 8]
                (scanned language keyboard path chars content w))"
proof -
  have "dropWhile (\<lambda>n. writable (scanned language keyboard path chars content w)
                          (output_path language n)) [4, 5, 6, 7, 8] = []"
    using assms(5) by (simp add: scanned_def)
  then show ?thesis
    using assms(1-4)
    by (simp only: main_cases write_buckets_scanned option.case sum.case list.case content.case)
qed

lemma main_stops:
  assumes "files w (layout_path language keyboard) = Some (Decoded layout)"
    and "loads layout = Some doc"
    and "comprehension doc = Inr chars"
    and "files w path = Some (Decoded content)"
    and "[4, 5, 6, 7, 8] = ms @ n # ns"
    and "\<forall>m \<in> set ms. writable w (output_path language m)"
    and "\<not> writable w (output_path language n)"
  shows "main loads language keyboard path w =
           Raised (OSError (output_path language n))
             (written language (scanned_storage chars (file_lines content)) ms
                (scanned language keyboard path chars content w))"
proof -
  let ?fr = "\<lparr>storage = scanned_storage chars (file_lines content), valid_chars = chars\<rparr>"
  let ?w = "scanned language keyboard path chars content w"
  have "set ms \<subseteq> set [4, 5, 6, 7, 8 :: nat]"
    unfolding assms(5) by auto
  then have "\<forall>m \<in> set ms. m \<in> fst ` set (storage ?fr)"
    by (auto simp: scanned_storage_def)
  with assms(6) have pre: "\<forall>m \<in> set ms. writable ?w (output_path language m)
                             \<and> m \<in> fst ` set (storage ?fr)"
    by (simp add: scanned_def)
  have bad: "\<not> writable ?w (output_path language n)"
    using assms(7) by (simp add: scanned_def)
  have "main loads language keyboard path w = write_buckets language (ms @ n # ns) ?fr ?w"
    using assms(1-4)
    by (simp only: main_cases option.case sum.case content.case assms(5) [symmetric])
  with write_buckets_stop [OF pre bad, of ns] show ?thesis by simp
qed

lemma exit_status_outcome: "exit_status r = 0 \<longleftrightarrow> fst (outcome r) = None"
  by (cases r) simp_all

lemma py_iter_error: "py_iter j = Inl e \<Longrightarrow> e = TypeError"
  by (cases j) simp_all

lemma flatten_items_error: "flatten_items js = Inl e \<Longrightarrow> e = TypeError"
  by (induction js) (auto split: sum.splits dest: py_iter_error)

lemma comprehension_error: "comprehension doc = Inl e \<Longrightarrow> e = TypeError"
  by (auto simp: comprehension_def split: sum.splits dest: py_iter_error flatten_items_error)

lemma py_iter_container: "(\<exists>items. py_iter j = Inr items) \<longleftrightarrow> is_container j"
  by (cases j) (simp_all add: is_container_def)

lemma flatten_items_containers:
  "(\<exists>chars. flatten_items js = Inr chars) \<longleftrightarrow> list_all is_container js"
proof (induction js)
  case Nil
  then show ?case by simp
next
  case (Cons j js)
  show ?case
  proof (cases "py_iter j")
    case (Inl e)
    then have "\<not> is_container j"
      using py_iter_container [of j] by auto
    with Inl show ?thesis by simp
  next
    case (Inr items)
    then have "is_container j"
      using py_iter_container [of j] by auto
    with Inr Cons show ?thesis
      by (cases "flatten_items js") auto
  qed
qed

lemma comprehension_flattenable:
  "(\<exists>chars. comprehension doc = Inr chars) \<longleftrightarrow> flattenable doc"
  by (cases doc)
    (simp_all add: comprehension_def flattenable_def flatten_items_containers
      is_container_def list_all_iff)

lemma comprehension_raises: "comprehension doc = Inl TypeError \<longleftrightarrow> \<not> flattenable doc"
proof -
  have "comprehension doc = Inl TypeError \<longleftrightarrow> \<not> (\<exists>chars. comprehension doc = Inr chars)"
    using comprehension_error [of doc] by (cases "comprehension doc") auto
  then show ?thesis
    by (simp only: comprehension_flattenable)
qed

lemma main_success:
  "exit_status (main loads language keyboard path w) = 0 \<longleftrightarrow>
     (\<exists>layout doc chars content.
        files w (layout_path language keyboard) = Some (Decoded layout) \<and>
        loads layout = Some doc \<and> comprehension doc = Inr chars \<and>
        files w path = Some (Decoded content) \<and>
        (\<forall>n \<in> {4..8}. writable w (output_path language n)))"
proof
  assume "exit_status (main loads language keyboard path w) = 0"
  then have ok: "fst (outcome (main loads language keyboard path w)) = None"
    by (simp add: exit_status_outcome)
  then obtain infile where infile: "files w (layout_path language keyboard) = Some infile"
    by (cases "files w (layout_path language keyboard)") (auto simp: main_outcome)
  with ok obtain layout where "infile = Decoded layout"
    by (cases infile) (auto simp: main_outcome)
  with infile have layout: "files w (layout_path language keyboard) = Some (Decoded layout)"
    by simp
  with ok obtain doc where doc: "loads layout = Some doc"
    by (cases "loads layout") (auto simp: main_outcome)
  with ok layout obtain chars where chars: "comprehension doc = Inr chars"
    by (cases "comprehension doc") (auto simp: main_outcome)
  with ok layout doc obtain words where words: "files w path = Some words"
    by (cases "files w path") (auto simp: main_outcome)
  with ok layout doc chars obtain content where "words = Decoded content"
    by (cases words) (auto simp: main_outcome)
  with words have content: "files w path = Some (Decoded content)"
    by simp
  from ok layout doc chars content
  have "dropWhile (\<lambda>n. writable w (output_path language n)) [4, 5, 6, 7, 8] = []"
    by (cases "dropWhile (\<lambda>n. writable w (output_path language n)) [4, 5, 6, 7, 8]")
      (simp_all only: main_outcome option.case sum.case list.case content.case fst_conv
        option.distinct)
  then have "\<forall>n \<in> {4..8}. writable w (output_path language n)"
    by (simp only: dropWhile_eq_Nil_conv range_4_8) simp
  with layout doc chars content
  show "\<exists>layout doc chars content.
        files w (layout_path language keyboard) = Some (Decoded layout) \<and>
        loads layout = Some doc \<and> comprehension doc = Inr chars \<and>
        files w path = Some (Decoded content) \<and>
        (\<forall>n \<in> {4..8}. writable w (output_path language n))"
    by blast
next
  assume "\<exists>layout doc chars content.
        files w (layout_path language keyboard) = Some (Decoded layout) \<and>
        loads layout = Some doc \<and> comprehension doc = Inr chars \<and>
        files w path = Some (Decoded content) \<and>
        (\<forall>n \<in> {4..8}. writable w (output_path language n))"
  then obtain layout doc chars content where
    a: "files w (layout_path language keyboard) = Some (Decoded layout)"
    and b: "loads layout = Some doc"
    and c: "comprehension doc = Inr chars" and d: "files w path = Some (Decoded content)"
    and e: "\<forall>n \<in> {4..8}. writable w (output_path language n)"
    by blast
  have "main loads language keyboard path w =
           Done \<lparr>storage = scanned_storage chars (file_lines content), valid_chars = chars\<rparr>
             (written language (scanned_storage chars (file_lines content)) [4, 5, 6, 7, 8]
                (scanned language keyboard path chars content w))"
    using a b c d e by (rule main_Done)
  then show "exit_status (main loads language keyboard path w) = 0"
    by simp
qed

section \<open>The example run\<close>

lemma example_lines:
  "file_lines example_words =
     [lit ''cabbed'' @ [10], lit '' abba '' @ [10], lit ''caved'' @ [10], lit ''hi'' @ [10],
      lit ''deadbeer'' @ [10]]"
  by (simp add: file_lines_def example_words_def lit_def)

lemma example_trimmed:
  "map strip (file_lines example_words) =
     [lit ''cabbed'', lit ''abba'', lit ''caved'', lit ''hi'', lit ''deadbeer'']"
  unfolding example_lines by (simp add: strip_def isspace_def lit_def)

section \<open>The claims\<close>

text \<open>
  C1. For every length \<open>N\<close> from 4 to 8, the bucket for \<open>N\<close> at the end of the scan is
  the sequence of the trimmed input lines that have length \<open>N\<close>, have every character
  in the valid-character collection and have more than \<open>N div 2\<close> distinct characters:
  in the order of the input, once per occurrence, and the scan always ends.
\<close>

theorem bucket_contents:
  "\<exists>fr w'. scan raws \<lparr>storage = initial_storage, valid_chars = chars\<rparr> w = Done fr w' \<and>
     (\<forall>n \<in> {4..8}. map_of (storage fr) n =
        Some (filter (\<lambda>word. length word = n \<and> list_all (\<lambda>c. JStr [c] \<in> set chars) word
                              \<and> n div 2 < card (set word))
               (map strip raws)))"
proof -
  have "map_of (scanned_storage chars raws) n =
        Some (filter (\<lambda>word. length word = n \<and> list_all (\<lambda>c. JStr [c] \<in> set chars) word
                              \<and> n div 2 < card (set word))
               (map strip raws))" if "n \<in> {4..8}" for n
  proof -
    have "map_of (scanned_storage chars raws) n = Some (bucket_of chars n raws)"
      using that by (auto simp: scanned_storage_def range_4_8)
    moreover have "bucket_of chars n raws =
        filter (\<lambda>word. length word = n \<and> list_all (\<lambda>c. JStr [c] \<in> set chars) word
                              \<and> n div 2 < card (set word))
               (map strip raws)"
      unfolding bucket_of_def using that
      by (intro filter_cong) (auto simp: accepted_def)
    ultimately show ?thesis by simp
  qed
  then show ?thesis
    by (simp add: scan_initial)
qed

theorem bucket_contents_witness:
  "\<exists>fr w'. scan (file_lines example_words)
              \<lparr>storage = initial_storage, valid_chars = example_chars\<rparr> example_world = Done fr w' \<and>
     map_of (storage fr) 6 = Some [lit ''cabbed''] \<and>
     map_of (storage fr) 8 = Some [lit ''deadbeer''] \<and>
     map_of (storage fr) 4 = Some []"
proof -
  have six: "filter (\<lambda>word. length word = 6 \<and> list_all (\<lambda>c. JStr [c] \<in> set example_chars) word
                              \<and> 6 div 2 < card (set word))
               (map strip (file_lines example_words)) = [lit ''cabbed'']"
    unfolding example_trimmed by (simp add: example_chars_def lit_def card_insert_if)
  have eight: "filter (\<lambda>word. length word = 8 \<and> list_all (\<lambda>c. JStr [c] \<in> set example_chars) word
                              \<and> 8 div 2 < card (set word))
               (map strip (file_lines example_words)) = [lit ''deadbeer'']"
    unfolding example_trimmed by (simp add: example_chars_def lit_def card_insert_if)
  have four: "filter (\<lambda>word. length word = 4 \<and> list_all (\<lambda>c. JStr [c] \<in> set example_chars) word
                              \<and> 4 div 2 < card (set word))
               (map strip (file_lines example_words)) = []"
    unfolding example_trimmed by (simp add: example_chars_def lit_def card_insert_if)
  from bucket_contents [of "file_lines example_words" example_chars example_world]
  obtain fr w' where
    run: "scan (file_lines example_words)
            \<lparr>storage = initial_storage, valid_chars = example_chars\<rparr> example_world = Done fr w'"
    and buckets: "\<forall>n \<in> {4..8}. map_of (storage fr) n =
        Some (filter (\<lambda>word. length word = n \<and> list_all (\<lambda>c. JStr [c] \<in> set example_chars) word
                              \<and> n div 2 < card (set word))
               (map strip (file_lines example_words)))"
    by blast
  have "map_of (storage fr) 6 = Some [lit ''cabbed'']"
    using bspec [OF buckets, of 6] by (simp only: six) simp
  moreover have "map_of (storage fr) 8 = Some [lit ''deadbeer'']"
    using bspec [OF buckets, of 8] by (simp only: eight) simp
  moreover have "map_of (storage fr) 4 = Some []"
    using bspec [OF buckets, of 4] by (simp only: four) simp
  ultimately show ?thesis
    using run by blast
qed

lemma set_update_subset: "set (AList.update k v al) \<subseteq> insert (k, v) (set al)"
  by (induction al) auto

lemma bucket_invariant_iff:
  "bucket_invariant chars st \<longleftrightarrow>
     (\<forall>(k, bucket) \<in> set st. \<forall>word \<in> set bucket. accepted chars word \<and> length word = k)"
  by (auto simp: bucket_invariant_def list_all_iff)

lemma bucket_invariant_update:
  assumes "bucket_invariant chars st" and "map_of st k = Some b"
    and "accepted chars word" and "length word = k"
  shows "bucket_invariant chars (AList.update k (b @ [word]) st)"
proof -
  have old: "\<forall>w \<in> set b. accepted chars w \<and> length w = k"
    using assms(1) map_of_SomeD [OF assms(2)] by (auto simp: bucket_invariant_iff)
  show ?thesis
    unfolding bucket_invariant_iff
  proof (intro ballI, clarify)
    fix j bucket w
    assume "(j, bucket) \<in> set (AList.update k (b @ [word]) st)" and w: "w \<in> set bucket"
    then have "(j, bucket) = (k, b @ [word]) \<or> (j, bucket) \<in> set st"
      using set_update_subset [of k "b @ [word]" st] by auto
    then show "accepted chars w \<and> length w = j"
    proof
      assume "(j, bucket) = (k, b @ [word])"
      with w old assms(3,4) show ?thesis by auto
    next
      assume "(j, bucket) \<in> set st"
      with w assms(1) show ?thesis by (auto simp: bucket_invariant_iff)
    qed
  qed
qed

lemma scan_line_invariant:
  assumes "bucket_invariant (valid_chars fr) (storage fr)"
    and "scan_line raw fr w = Done fr' w'"
  shows "bucket_invariant (valid_chars fr') (storage fr')"
proof (cases "accepted (valid_chars fr) (strip raw)")
  case True
  show ?thesis
  proof (cases "map_of (storage fr) (length (strip raw))")
    case None
    with True assms(2) show ?thesis
      by (simp add: scan_line_def accepted_def py_int_truediv_2 Let_def)
  next
    case (Some b)
    with True assms(2)
    have "fr' = fr\<lparr>storage := AList.update (length (strip raw)) (b @ [strip raw]) (storage fr)\<rparr>"
      by (simp add: scan_line_def accepted_def py_int_truediv_2 Let_def)
    with bucket_invariant_update [OF assms(1) Some True] show ?thesis by simp
  qed
next
  case False
  with assms(2) have "fr' = fr"
    by (auto simp: scan_line_def accepted_def py_int_truediv_2 Let_def split: if_splits)
  with assms(1) show ?thesis by simp
qed

lemma scan_invariant:
  assumes "bucket_invariant (valid_chars fr) (storage fr)"
    and "scan raws fr w = Done fr' w'"
  shows "bucket_invariant (valid_chars fr') (storage fr')"
  using assms
proof (induction raws arbitrary: fr w)
  case Nil
  then show ?case by simp
next
  case (Cons raw raws)
  from Cons.prems(2) obtain fr1 w1 where
    step: "scan_line raw fr w = Done fr1 w1" and rest: "scan raws fr1 w1 = Done fr' w'"
    by (auto split: run.splits)
  from Cons.IH [OF scan_line_invariant [OF Cons.prems(1) step] rest] show ?case .
qed

text \<open>
  C2. The invariant of the bucket map: every word of a bucket has a length from 4 to 8, all
  its characters in the valid-character collection, more than half of its length (rounded
  down) in distinct characters, and sits under the key equal to its length. It holds of
  the initial map, every iteration of the scan loop preserves it, and so it holds at every
  point the scan reaches and at its end.
\<close>

theorem bucket_invariant_preserved:
  "bucket_invariant chars initial_storage \<and>
   (bucket_invariant (valid_chars fr) (storage fr) \<and> scan_line raw fr w = Done fr' w'
      \<longrightarrow> bucket_invariant (valid_chars fr') (storage fr')) \<and>
   (scan raws \<lparr>storage = initial_storage, valid_chars = chars\<rparr> w = Done fr' w'
      \<longrightarrow> valid_chars fr' = chars \<and>
          (\<forall>(k, bucket) \<in> set (storage fr'). \<forall>word \<in> set bucket.
              4 \<le> length word \<and> length word \<le> 8 \<and>
              list_all (\<lambda>c. JStr [c] \<in> set chars) word \<and>
              length word div 2 < card (set word) \<and> length word = k))"
proof (intro conjI impI)
  show init: "bucket_invariant chars initial_storage"
    by (simp add: bucket_invariant_def initial_storage_def)
  show "bucket_invariant (valid_chars fr') (storage fr')"
    if "bucket_invariant (valid_chars fr) (storage fr) \<and> scan_line raw fr w = Done fr' w'"
    using that scan_line_invariant by blast
  assume run: "scan raws \<lparr>storage = initial_storage, valid_chars = chars\<rparr> w = Done fr' w'"
  then show vc: "valid_chars fr' = chars"
    by (auto simp: scan_initial)
  have "bucket_invariant (valid_chars fr') (storage fr')"
    using scan_invariant [OF _ run] init by simp
  then show "\<forall>(k, bucket) \<in> set (storage fr'). \<forall>word \<in> set bucket.
              4 \<le> length word \<and> length word \<le> 8 \<and>
              list_all (\<lambda>c. JStr [c] \<in> set chars) word \<and>
              length word div 2 < card (set word) \<and> length word = k"
    unfolding bucket_invariant_iff vc accepted_def by fast
qed

theorem bucket_invariant_preserved_witness:
  "bucket_invariant example_chars
     [(4, []), (5, []), (6, [lit ''cabbed'', lit ''decade'']), (7, []), (8, [])]"
proof -
  let ?fr = "\<lparr>storage = [(4, []), (5, []), (6, [lit ''cabbed'']), (7, []), (8, [])],
              valid_chars = example_chars\<rparr>"
  let ?fr' = "\<lparr>storage = [(4, []), (5, []), (6, [lit ''cabbed'', lit ''decade'']), (7, []), (8, [])],
              valid_chars = example_chars\<rparr>"
  have inv: "bucket_invariant (valid_chars ?fr) (storage ?fr)"
    by (simp add: bucket_invariant_def accepted_def example_chars_def lit_def card_insert_if)
  have step: "scan_line (lit '' decade'' @ [10]) ?fr example_world = Done ?fr' example_world"
    by (simp add: scan_line_def strip_def isspace_def lit_def example_chars_def
        py_int_truediv_2 card_insert_if Let_def)
  from bucket_invariant_preserved
    [of example_chars ?fr "lit '' decade'' @ [10]" example_world ?fr' example_world]
    inv step
  show ?thesis by simp
qed

lemma flatten_items_arrays:
  "flatten_items (map JArr rows) =
     Inr (filter (\<lambda>item. item \<noteq> JStr [10] \<and> item \<noteq> JStr [9]) (concat rows))"
  by (induction rows) simp_all

text \<open>
  C3. When the file \<open>{language}/{keyboard}.json\<close> parses to a sequence of sequences, the
  loader returns the concatenation of the inner sequences without the elements equal to
  the newline or the tab string: nothing else is removed, nothing is added.
\<close>

theorem valid_chars_loaded:
  assumes "files w (language @ lit ''/'' @ keyboard @ lit ''.json'') = Some (Decoded content)"
    and "loads content = Some (JArr (map JArr rows))"
  shows "load_valid_chars loads language keyboard w =
           (Inr (filter (\<lambda>item. item \<noteq> JStr [10] \<and> item \<noteq> JStr [9]) (concat rows)),
            w\<lparr>log := log w @ [Open_read (language @ lit ''/'' @ keyboard @ lit ''.json'')]\<rparr>)"
  using assms
  by (simp add: load_valid_chars_eq layout_path_def comprehension_def flatten_items_arrays)

theorem valid_chars_loaded_witness:
  "load_valid_chars example_loads (lit ''en'') (lit ''qwerty'') example_world =
     (Inr [JStr (lit ''a''), JStr (lit ''b''), JStr (lit ''c''),
           JStr (lit ''d''), JStr (lit ''e''), JStr (lit ''r'')],
      example_world\<lparr>log := [Open_read (lit ''en/qwerty.json'')]\<rparr>)"
proof -
  have layout_file: "files example_world (lit ''en'' @ lit ''/'' @ lit ''qwerty'' @ lit ''.json'')
                = Some (Decoded example_layout)"
    by (simp add: example_world_def lit_def)
  have doc: "example_loads example_layout =
      Some (JArr (map JArr [[JStr (lit ''a''), JStr (lit ''b''), JStr (lit ''c''), JStr [10]],
                            [JStr (lit ''d''), JStr (lit ''e''), JStr (lit ''r''), JStr [9]]]))"
    by (simp add: example_loads_def example_doc_def)
  from valid_chars_loaded
    [where w = example_world and language = "lit ''en''" and keyboard = "lit ''qwerty''"
       and content = example_layout and loads = example_loads
       and rows = "[[JStr (lit ''a''), JStr (lit ''b''), JStr (lit ''c''), JStr [10]],
                    [JStr (lit ''d''), JStr (lit ''e''), JStr (lit ''r''), JStr [9]]]",
      OF layout_file doc]
  show ?thesis
    by (simp add: lit_def example_world_def)
qed

lemma print_changes: "w \<noteq> print s w" "print s w \<noteq> w"
proof -
  have "log w \<noteq> log (print s w)" by (simp add: print_def)
  then show "w \<noteq> print s w" and "print s w \<noteq> w" by auto
qed

lemma min_unique_eq: "4 \<le> n \<Longrightarrow> n \<le> 8 \<Longrightarrow> min_unique n = n div 2 + 1"
proof -
  assume "4 \<le> n" and "n \<le> 8"
  then have "n = 4 \<or> n = 5 \<or> n = 6 \<or> n = 7 \<or> n = 8" by arith
  then show ?thesis by (auto simp: min_unique_def)
qed

text \<open>
  C4. For a trimmed word of length \<open>L\<close> from 4 to 8 that passes the character check, the
  scan rejects it for too few unique letters exactly when its number of distinct characters
  is at most \<open>L div 2\<close>, which is what \<open>int(len(line) / 2)\<close> computes; the least
  accepted numbers are 3, 3, 4, 4 and 5 for the lengths 4 to 8.
\<close>

theorem unique_letter_threshold:
  assumes "4 \<le> length (strip raw)" and "length (strip raw) \<le> 8"
    and "list_all (\<lambda>c. JStr [c] \<in> set (valid_chars fr)) (strip raw)"
  shows "py_int (py_truediv (length (strip raw)) 2) = int (length (strip raw) div 2) \<and>
         (scan_line raw fr w =
            Done fr (print (lit ''Skipping '' @ strip raw @ lit '' for not enough unique letters'') w)
          \<longleftrightarrow> card (set (strip raw)) \<le> length (strip raw) div 2) \<and>
         (card (set (strip raw)) \<le> length (strip raw) div 2
          \<longleftrightarrow> card (set (strip raw)) < min_unique (length (strip raw))) \<and>
         min_unique 4 = 3 \<and> min_unique 5 = 3 \<and> min_unique 6 = 4 \<and> min_unique 7 = 4 \<and>
         min_unique 8 = 5"
proof (intro conjI)
  show "py_int (py_truediv (length (strip raw)) 2) = int (length (strip raw) div 2)"
    by (rule py_int_truediv_2)
  show "scan_line raw fr w =
            Done fr (print (lit ''Skipping '' @ strip raw @ lit '' for not enough unique letters'') w)
          \<longleftrightarrow> card (set (strip raw)) \<le> length (strip raw) div 2"
    using assms
    by (auto simp: scan_line_def py_int_truediv_2 Let_def print_changes split: option.splits)
  show "card (set (strip raw)) \<le> length (strip raw) div 2
          \<longleftrightarrow> card (set (strip raw)) < min_unique (length (strip raw))"
    using min_unique_eq [OF assms(1,2)] by auto
qed (simp_all add: min_unique_def)

theorem unique_letter_threshold_witness:
  "scan_line (lit '' abba '' @ [10]) \<lparr>storage = initial_storage, valid_chars = example_chars\<rparr>
       example_world =
     Done \<lparr>storage = initial_storage, valid_chars = example_chars\<rparr>
       (print (lit ''Skipping abba for not enough unique letters'') example_world)"
proof -
  let ?raw = "lit '' abba '' @ [10]"
  let ?fr = "\<lparr>storage = initial_storage, valid_chars = example_chars\<rparr>"
  have trimmed: "strip ?raw = lit ''abba''"
    by (simp add: strip_def isspace_def lit_def)
  have "4 \<le> length (strip ?raw)" and "length (strip ?raw) \<le> 8"
    and "list_all (\<lambda>c. JStr [c] \<in> set (valid_chars ?fr)) (strip ?raw)"
    and "card (set (strip ?raw)) \<le> length (strip ?raw) div 2"
    unfolding trimmed by (simp_all add: lit_def example_chars_def card_insert_if)
  with unique_letter_threshold [of ?raw ?fr example_world]
  have "scan_line ?raw ?fr example_world =
     Done ?fr (print (lit ''Skipping '' @ strip ?raw @ lit '' for not enough unique letters'')
                 example_world)"
    by blast
  then show ?thesis
    unfolding trimmed by (simp add: lit_def)
qed

text \<open>
  C5. A line whose trimmed length is out of range is skipped with no output; a line in range
  with an invalid character prints one line naming it; a line in range with valid characters
  and too few distinct ones prints one line naming it. The checks come in that order, so a
  line gives at most one diagnostic, and the scan goes on over all the lines: its output
  is the diagnostics of the lines, in their order.
\<close>

theorem rejections_and_diagnostics:
  "(length (strip raw) < 4 \<or> 8 < length (strip raw) \<longrightarrow> scan_line raw fr w = Done fr w) \<and>
   (4 \<le> length (strip raw) \<and> length (strip raw) \<le> 8 \<and>
    \<not> list_all (\<lambda>c. JStr [c] \<in> set (valid_chars fr)) (strip raw) \<longrightarrow>
      scan_line raw fr w =
        Done fr (print (lit ''Skipping '' @ strip raw @ lit '' for invalid chars'') w)) \<and>
   (4 \<le> length (strip raw) \<and> length (strip raw) \<le> 8 \<and>
    list_all (\<lambda>c. JStr [c] \<in> set (valid_chars fr)) (strip raw) \<and>
    card (set (strip raw)) \<le> length (strip raw) div 2 \<longrightarrow>
      scan_line raw fr w =
        Done fr (print (lit ''Skipping '' @ strip raw @ lit '' for not enough unique letters'') w)) \<and>
   scan raws \<lparr>storage = initial_storage, valid_chars = chars\<rparr> w =
     Done \<lparr>storage = scanned_storage chars raws, valid_chars = chars\<rparr>
       (w\<lparr>log := log w @ map Print (diagnostics chars raws)\<rparr>) \<and>
   length (diagnostic chars word) \<le> 1"
proof (intro conjI impI)
  show "scan_line raw fr w = Done fr w" if "length (strip raw) < 4 \<or> 8 < length (strip raw)"
    using that by (auto simp: scan_line_def Let_def)
  show "scan_line raw fr w =
        Done fr (print (lit ''Skipping '' @ strip raw @ lit '' for invalid chars'') w)"
    if "4 \<le> length (strip raw) \<and> length (strip raw) \<le> 8 \<and>
        \<not> list_all (\<lambda>c. JStr [c] \<in> set (valid_chars fr)) (strip raw)"
    using that by (simp add: scan_line_def Let_def)
  show "scan_line raw fr w =
        Done fr (print (lit ''Skipping '' @ strip raw @ lit '' for not enough unique letters'') w)"
    if "4 \<le> length (strip raw) \<and> length (strip raw) \<le> 8 \<and>
        list_all (\<lambda>c. JStr [c] \<in> set (valid_chars fr)) (strip raw) \<and>
        card (set (strip raw)) \<le> length (strip raw) div 2"
    using that by (simp add: scan_line_def Let_def py_int_truediv_2)
  show "scan raws \<lparr>storage = initial_storage, valid_chars = chars\<rparr> w =
     Done \<lparr>storage = scanned_storage chars raws, valid_chars = chars\<rparr>
       (w\<lparr>log := log w @ map Print (diagnostics chars raws)\<rparr>)"
    by (rule scan_initial)
  show "length (diagnostic chars word) \<le> 1"
    by (simp add: diagnostic_def)
qed

theorem rejections_and_diagnostics_witness:
  "scan_line (lit ''h!'' @ [10]) \<lparr>storage = initial_storage, valid_chars = example_chars\<rparr>
       example_world =
     Done \<lparr>storage = initial_storage, valid_chars = example_chars\<rparr> example_world \<and>
   scan_line (lit ''zzzz'' @ [10]) \<lparr>storage = initial_storage, valid_chars = example_chars\<rparr>
       example_world =
     Done \<lparr>storage = initial_storage, valid_chars = example_chars\<rparr>
       (print (lit ''Skipping zzzz for invalid chars'') example_world) \<and>
   scan_line (lit ''abba'' @ [10]) \<lparr>storage = initial_storage, valid_chars = example_chars\<rparr>
       example_world =
     Done \<lparr>storage = initial_storage, valid_chars = example_chars\<rparr>
       (print (lit ''Skipping abba for not enough unique letters'') example_world)"
proof -
  let ?fr = "\<lparr>storage = initial_storage, valid_chars = example_chars\<rparr>"
  have t1: "strip (lit ''h!'' @ [10]) = lit ''h!''"
    and t2: "strip (lit ''zzzz'' @ [10]) = lit ''zzzz''"
    and t3: "strip (lit ''abba'' @ [10]) = lit ''abba''"
    by (simp_all add: strip_def isspace_def lit_def)
  have "length (strip (lit ''h!'' @ [10])) < 4 \<or> 8 < length (strip (lit ''h!'' @ [10]))"
    unfolding t1 by (simp add: lit_def)
  with rejections_and_diagnostics [of "lit ''h!'' @ [10]" ?fr example_world]
  have a: "scan_line (lit ''h!'' @ [10]) ?fr example_world = Done ?fr example_world"
    by blast
  have "4 \<le> length (strip (lit ''zzzz'' @ [10])) \<and> length (strip (lit ''zzzz'' @ [10])) \<le> 8 \<and>
    \<not> list_all (\<lambda>c. JStr [c] \<in> set (valid_chars ?fr)) (strip (lit ''zzzz'' @ [10]))"
    unfolding t2 by (simp add: lit_def example_chars_def)
  with rejections_and_diagnostics [of "lit ''zzzz'' @ [10]" ?fr example_world]
  have "scan_line (lit ''zzzz'' @ [10]) ?fr example_world =
        Done ?fr (print (lit ''Skipping '' @ strip (lit ''zzzz'' @ [10]) @ lit '' for invalid chars'')
                    example_world)"
    by blast
  then have b: "scan_line (lit ''zzzz'' @ [10]) ?fr example_world =
        Done ?fr (print (lit ''Skipping zzzz for invalid chars'') example_world)"
    unfolding t2 by (simp add: lit_def)
  have "4 \<le> length (strip (lit ''abba'' @ [10])) \<and> length (strip (lit ''abba'' @ [10])) \<le> 8 \<and>
    list_all (\<lambda>c. JStr [c] \<in> set (valid_chars ?fr)) (strip (lit ''abba'' @ [10])) \<and>
    card (set (strip (lit ''abba'' @ [10]))) \<le> length (strip (lit ''abba'' @ [10])) div 2"
    unfolding t3 by (simp add: lit_def example_chars_def card_insert_if)
  with rejections_and_diagnostics [of "lit ''abba'' @ [10]" ?fr example_world]
  have "scan_line (lit ''abba'' @ [10]) ?fr example_world =
        Done ?fr (print (lit ''Skipping '' @ strip (lit ''abba'' @ [10])
                           @ lit '' for not enough unique letters'') example_world)"
    by blast
  then have c: "scan_line (lit ''abba'' @ [10]) ?fr example_world =
        Done ?fr (print (lit ''Skipping abba for not enough unique letters'') example_world)"
    unfolding t3 by (simp add: lit_def)
  from a b c show ?thesis by blast
qed

text \<open>
  C6. With the five keys in their order of insertion and the five paths writable, the writer
  ends normally having done, for 4, 5, 6, 7 and 8 in this order: open
  \<open>{language}/length{N}.json\<close>, print the summary line with the number of words, write the
  bucket as a JSON array. Each of the five files then holds its bucket, no other file is
  touched, and an empty bucket is written as \<open>[]\<close>.
\<close>

theorem writer_writes_five_files:
  assumes "storage fr = [(4, b4), (5, b5), (6, b6), (7, b7), (8, b8)]"
    and "\<forall>n \<in> {4..8}. writable w (output_path language n)"
  shows "\<exists>w'. write_buckets language (map fst (storage fr)) fr w = Done fr w' \<and>
     log w' = log w @ file_events language 4 b4 @ file_events language 5 b5
                @ file_events language 6 b6 @ file_events language 7 b7
                @ file_events language 8 b8 \<and>
     files w' (output_path language 4) = Some (Decoded (json_dumps b4)) \<and>
     files w' (output_path language 5) = Some (Decoded (json_dumps b5)) \<and>
     files w' (output_path language 6) = Some (Decoded (json_dumps b6)) \<and>
     files w' (output_path language 7) = Some (Decoded (json_dumps b7)) \<and>
     files w' (output_path language 8) = Some (Decoded (json_dumps b8)) \<and>
     (\<forall>p. p \<notin> output_path language ` {4..8} \<longrightarrow> files w' p = files w p) \<and>
     map (output_path language) [4, 5, 6, 7, 8] =
       map (\<lambda>name. language @ lit name)
         [''/length4.json'', ''/length5.json'', ''/length6.json'', ''/length7.json'',
          ''/length8.json''] \<and>
     json_dumps [] = lit ''[]''"
proof -
  let ?w' = "written language (storage fr) [4, 5, 6, 7, 8] w"
  have keys: "map fst (storage fr) = [4, 5, 6, 7, 8]"
    by (simp add: assms(1))
  have "\<forall>n \<in> set [4, 5, 6, 7, 8]. writable w (output_path language n) \<and> n \<in> fst ` set (storage fr)"
    using assms(2) by (simp add: assms(1))
  from write_buckets_ok [OF this]
  have run: "write_buckets language (map fst (storage fr)) fr w = Done fr ?w'"
    by (simp only: keys)
  have lg: "log ?w' = log w @ file_events language 4 b4 @ file_events language 5 b5
                @ file_events language 6 b6 @ file_events language 7 b7
                @ file_events language 8 b8"
    by (simp add: log_written assms(1))
  have at: "files ?w' (output_path language n)
              = Some (Decoded (json_dumps (the (map_of (storage fr) n))))"
    if "n \<in> {4..8}" for n
    using that by (rule files_written_five_at)
  have f4: "files ?w' (output_path language 4) = Some (Decoded (json_dumps b4))"
    using at [of 4] by (simp add: assms(1))
  have f5: "files ?w' (output_path language 5) = Some (Decoded (json_dumps b5))"
    using at [of 5] by (simp add: assms(1))
  have f6: "files ?w' (output_path language 6) = Some (Decoded (json_dumps b6))"
    using at [of 6] by (simp add: assms(1))
  have f7: "files ?w' (output_path language 7) = Some (Decoded (json_dumps b7))"
    using at [of 7] by (simp add: assms(1))
  have f8: "files ?w' (output_path language 8) = Some (Decoded (json_dumps b8))"
    using at [of 8] by (simp add: assms(1))
  have other: "\<forall>p. p \<notin> output_path language ` {4..8} \<longrightarrow> files ?w' p = files w p"
  proof (intro allI impI)
    fix p assume "p \<notin> output_path language ` {4..8}"
    then have "p \<notin> output_path language ` set [4, 5, 6, 7, 8]"
      by (simp add: range_4_8)
    then show "files ?w' p = files w p" by (rule files_written_other)
  qed
  have empty: "json_dumps [] = lit ''[]''"
    by (simp add: json_dumps_def lit_def)
  from run lg f4 f5 f6 f7 f8 other output_path_names [of language] empty
  show ?thesis by blast
qed

theorem writer_writes_five_files_witness:
  "\<exists>w'. write_buckets (lit ''en'') [4, 5, 6, 7, 8]
           \<lparr>storage = [(4, []), (5, []), (6, [lit ''cabbed'']), (7, []), (8, [lit ''deadbeer''])],
              valid_chars = example_chars\<rparr> example_world
         = Done \<lparr>storage = [(4, []), (5, []), (6, [lit ''cabbed'']), (7, []), (8, [lit ''deadbeer''])],
                  valid_chars = example_chars\<rparr> w' \<and>
        files w' (lit ''en/length4.json'') = Some (Decoded (lit ''[]'')) \<and>
        files w' (lit ''en/length6.json'') = Some (Decoded ([91, 34] @ lit ''cabbed'' @ [34, 93]))"
proof -
  let ?fr = "\<lparr>storage = [(4, []), (5, []), (6, [lit ''cabbed'']), (7, []), (8, [lit ''deadbeer''])],
              valid_chars = example_chars\<rparr>"
  have st: "storage ?fr = [(4, []), (5, []), (6, [lit ''cabbed'']), (7, []), (8, [lit ''deadbeer''])]"
    by simp
  have wr: "\<forall>n \<in> {4..8}. writable example_world (output_path (lit ''en'') n)"
    by (simp add: example_world_def)
  from writer_writes_five_files [OF st wr] obtain w' where
    run: "write_buckets (lit ''en'') (map fst (storage ?fr)) ?fr example_world = Done ?fr w'"
    and f4: "files w' (output_path (lit ''en'') 4) = Some (Decoded (json_dumps []))"
    and f6: "files w' (output_path (lit ''en'') 6) = Some (Decoded (json_dumps [lit ''cabbed'']))"
    by blast
  have p4: "output_path (lit ''en'') 4 = lit ''en/length4.json''"
    and p6: "output_path (lit ''en'') 6 = lit ''en/length6.json''"
    by (simp_all add: output_path_def str_nat.simps lit_def)
  have d0: "json_dumps [] = lit ''[]''"
    by (simp add: json_dumps_def lit_def)
  have d6: "json_dumps [lit ''cabbed''] = [91, 34] @ lit ''cabbed'' @ [34, 93]"
    by (simp add: json_dumps_def encode_str_def escape_char_def lit_def)
  from run f4 f6 show ?thesis
    unfolding p4 p6 d0 d6 by auto
qed

text \<open>
  C7. Two runs with the same arguments, started with the same console, in worlds that hold
  the same layout file and the same word list: when both runs complete, they end with the
  same log (the lines printed and the texts written, in order) and the same contents in the
  five output files; and when the five output paths are writable in the one world exactly
  as in the other, the runs end the same way, with the same error if any and the same log.
\<close>

theorem main_deterministic:
  assumes "files w1 (layout_path language keyboard) = files w2 (layout_path language keyboard)"
    and "files w1 path = files w2 path"
    and "log w1 = log w2"
  shows "((\<forall>n \<in> {4..8}. writable w1 (output_path language n) = writable w2 (output_path language n))
            \<longrightarrow> outcome (main loads language keyboard path w1)
                  = outcome (main loads language keyboard path w2)) \<and>
         (exit_status (main loads language keyboard path w1) = 0 \<and>
          exit_status (main loads language keyboard path w2) = 0
            \<longrightarrow> outcome (main loads language keyboard path w1)
                  = outcome (main loads language keyboard path w2) \<and>
                (\<forall>n \<in> {4..8}.
                   files (final_world (main loads language keyboard path w1)) (output_path language n)
                   = files (final_world (main loads language keyboard path w2)) (output_path language n)))"
proof -
  let ?P1 = "\<lambda>n. writable w1 (output_path language n)"
  let ?P2 = "\<lambda>n. writable w2 (output_path language n)"
  have same: "outcome (main loads language keyboard path w1)
                = outcome (main loads language keyboard path w2)"
    if agree: "\<forall>n \<in> {4..8}. ?P1 n = ?P2 n"
  proof -
    have tw: "takeWhile ?P1 [4, 5, 6, 7, 8] = takeWhile ?P2 [4, 5, 6, 7, 8]"
      using agree by (intro takeWhile_cong refl) (auto simp: range_4_8)
    have dw: "dropWhile ?P1 [4, 5, 6, 7, 8] = dropWhile ?P2 [4, 5, 6, 7, 8]"
      using agree by (intro dropWhile_cong refl) (auto simp: range_4_8)
    show ?thesis
      unfolding main_outcome assms tw dw by (rule refl)
  qed
  have both: "outcome (main loads language keyboard path w1)
                = outcome (main loads language keyboard path w2) \<and>
              (\<forall>n \<in> {4..8}.
                 files (final_world (main loads language keyboard path w1)) (output_path language n)
                 = files (final_world (main loads language keyboard path w2)) (output_path language n))"
    if ok1: "exit_status (main loads language keyboard path w1) = 0"
      and ok2: "exit_status (main loads language keyboard path w2) = 0"
  proof -
    from ok1 obtain layout doc chars content where
      a1: "files w1 (layout_path language keyboard) = Some (Decoded layout)"
      and b: "loads layout = Some doc"
      and c: "comprehension doc = Inr chars" and d1: "files w1 path = Some (Decoded content)"
      and e1: "\<forall>n \<in> {4..8}. ?P1 n"
      unfolding main_success by blast
    from ok2 have e2: "\<forall>n \<in> {4..8}. ?P2 n"
      unfolding main_success by blast
    from a1 d1 have a2: "files w2 (layout_path language keyboard) = Some (Decoded layout)"
      and d2: "files w2 path = Some (Decoded content)"
      by (simp_all add: assms [symmetric])
    have r1: "main loads language keyboard path w1 =
           Done \<lparr>storage = scanned_storage chars (file_lines content), valid_chars = chars\<rparr>
             (written language (scanned_storage chars (file_lines content)) [4, 5, 6, 7, 8]
                (scanned language keyboard path chars content w1))"
      using a1 b c d1 e1 by (rule main_Done)
    have r2: "main loads language keyboard path w2 =
           Done \<lparr>storage = scanned_storage chars (file_lines content), valid_chars = chars\<rparr>
             (written language (scanned_storage chars (file_lines content)) [4, 5, 6, 7, 8]
                (scanned language keyboard path chars content w2))"
      using a2 b c d2 e2 by (rule main_Done)
    have "\<forall>n \<in> {4..8}.
            files (final_world (main loads language keyboard path w1)) (output_path language n)
            = files (final_world (main loads language keyboard path w2)) (output_path language n)"
      unfolding r1 r2 by (simp add: files_written_five_at)
    moreover from e1 e2 have "\<forall>n \<in> {4..8}. ?P1 n = ?P2 n" by simp
    ultimately show ?thesis using same by blast
  qed
  from same both show ?thesis by blast
qed

theorem main_deterministic_witness:
  "outcome (main example_loads (lit ''en'') (lit ''qwerty'') (lit ''words.txt'') example_world)
   = outcome (main example_loads (lit ''en'') (lit ''qwerty'') (lit ''words.txt'')
       (example_world\<lparr>files := (files example_world)(lit ''notes.txt'' \<mapsto> Decoded (lit ''x'')),
                       writable := (\<lambda>p. p \<noteq> lit ''notes.txt'')\<rparr>))"
proof -
  let ?w2 = "example_world\<lparr>files := (files example_world)(lit ''notes.txt'' \<mapsto> Decoded (lit ''x'')),
                       writable := (\<lambda>p. p \<noteq> lit ''notes.txt'')\<rparr>"
  have a: "files example_world (layout_path (lit ''en'') (lit ''qwerty''))
             = files ?w2 (layout_path (lit ''en'') (lit ''qwerty''))"
    by (simp add: layout_path_def lit_def)
  have b: "files example_world (lit ''words.txt'') = files ?w2 (lit ''words.txt'')"
    by (simp add: lit_def)
  have c: "log example_world = log ?w2"
    by simp
  have d: "\<forall>n \<in> {4..8}. writable example_world (output_path (lit ''en'') n)
                            = writable ?w2 (output_path (lit ''en'') n)"
    by (simp add: example_world_def output_path_def str_nat.simps lit_def)
  from main_deterministic [where loads = example_loads, OF a b c] d
  show ?thesis by blast
qed

lemma exit_status_cases: "exit_status r = 0 \<or> exit_status r = 1"
  by (cases r) simp_all

lemma example_layout_path: "layout_path (lit ''en'') (lit ''qwerty'') = lit ''en/qwerty.json''"
  by (simp add: layout_path_def lit_def)

lemma example_comprehension: "comprehension example_doc = Inr example_chars"
  by (simp add: comprehension_def example_doc_def example_chars_def lit_def)

text \<open>
  C8, as amended. A run ends with an unhandled error, and status 1, exactly in these
  cases: the layout file cannot be opened, cannot be decoded, is not JSON, or loads to a
  value the comprehension cannot flatten; the word list cannot be opened or cannot be
  decoded; one of the five output paths cannot be opened for writing. In each case the run
  stops there: before any output is opened nothing has been written, an undecodable word
  list leaves only the diagnostics of the lines read before the error, and at an unwritable
  path only the files before it have been written. Nothing that a line of the word list
  holds can end the run; in every other case the run writes the five files and ends with
  status 0.
\<close>

theorem fatal_errors_and_exit_status:
  "(files w (layout_path language keyboard) = None \<longrightarrow>
      main loads language keyboard path w = Raised (OSError (layout_path language keyboard)) w) \<and>
   (files w (layout_path language keyboard) = Some (Undecodable yielded) \<longrightarrow>
      main loads language keyboard path w =
        Raised UnicodeDecodeError (w\<lparr>log := log w @ [Open_read (layout_path language keyboard)]\<rparr>)) \<and>
   (files w (layout_path language keyboard) = Some (Decoded layout) \<and> loads layout = None \<longrightarrow>
      main loads language keyboard path w =
        Raised JSONDecodeError (w\<lparr>log := log w @ [Open_read (layout_path language keyboard)]\<rparr>)) \<and>
   (files w (layout_path language keyboard) = Some (Decoded layout) \<and> loads layout = Some doc \<and>
    \<not> flattenable doc \<longrightarrow>
      main loads language keyboard path w =
        Raised TypeError (w\<lparr>log := log w @ [Open_read (layout_path language keyboard)]\<rparr>)) \<and>
   (flattenable doc \<longleftrightarrow> (\<exists>chars. comprehension doc = Inr chars)) \<and>
   (files w (layout_path language keyboard) = Some (Decoded layout) \<and> loads layout = Some doc \<and>
    comprehension doc = Inr chars \<and> files w path = None \<longrightarrow>
      main loads language keyboard path w =
        Raised (OSError path) (w\<lparr>log := log w @ [Open_read (layout_path language keyboard)]\<rparr>)) \<and>
   (files w (layout_path language keyboard) = Some (Decoded layout) \<and> loads layout = Some doc \<and>
    comprehension doc = Inr chars \<and> files w path = Some (Undecodable yielded) \<longrightarrow>
      main loads language keyboard path w =
        Raised UnicodeDecodeError
          (w\<lparr>log := log w @ Open_read (layout_path language keyboard) # Open_read path
                  # map Print (diagnostics chars yielded)\<rparr>)) \<and>
   (files w (layout_path language keyboard) = Some (Decoded layout) \<and> loads layout = Some doc \<and>
    comprehension doc = Inr chars \<and> files w path = Some (Decoded content) \<and>
    [4, 5, 6, 7, 8] = ms @ n # ns \<and> (\<forall>m \<in> set ms. writable w (output_path language m)) \<and>
    \<not> writable w (output_path language n) \<longrightarrow>
      main loads language keyboard path w =
        Raised (OSError (output_path language n))
          (written language (scanned_storage chars (file_lines content)) ms
             (scanned language keyboard path chars content w))) \<and>
   (files w (layout_path language keyboard) = Some (Decoded layout) \<and> loads layout = Some doc \<and>
    comprehension doc = Inr chars \<and> files w path = Some (Decoded content) \<and>
    (\<forall>n \<in> {4..8}. writable w (output_path language n)) \<longrightarrow>
      main loads language keyboard path w =
        Done \<lparr>storage = scanned_storage chars (file_lines content), valid_chars = chars\<rparr>
          (written language (scanned_storage chars (file_lines content)) [4, 5, 6, 7, 8]
             (scanned language keyboard path chars content w))) \<and>
   exit_status (main loads language keyboard path w) =
     (if \<exists>layout doc content.
           files w (layout_path language keyboard) = Some (Decoded layout) \<and>
           loads layout = Some doc \<and> flattenable doc \<and>
           files w path = Some (Decoded content) \<and>
           (\<forall>n \<in> {4..8}. writable w (output_path language n))
      then 0 else 1)"
proof (intro conjI impI)
  show "main loads language keyboard path w = Raised (OSError (layout_path language keyboard)) w"
    if "files w (layout_path language keyboard) = None"
    using that by (simp add: main_cases)
  show "main loads language keyboard path w =
        Raised UnicodeDecodeError (w\<lparr>log := log w @ [Open_read (layout_path language keyboard)]\<rparr>)"
    if "files w (layout_path language keyboard) = Some (Undecodable yielded)"
    using that by (simp add: main_cases)
  show "main loads language keyboard path w =
        Raised JSONDecodeError (w\<lparr>log := log w @ [Open_read (layout_path language keyboard)]\<rparr>)"
    if "files w (layout_path language keyboard) = Some (Decoded layout) \<and> loads layout = None"
    using that by (simp add: main_cases)
  show "main loads language keyboard path w =
        Raised TypeError (w\<lparr>log := log w @ [Open_read (layout_path language keyboard)]\<rparr>)"
    if h: "files w (layout_path language keyboard) = Some (Decoded layout) \<and>
           loads layout = Some doc \<and> \<not> flattenable doc"
  proof -
    from h have "comprehension doc = Inl TypeError"
      by (simp add: comprehension_raises)
    with h show ?thesis by (simp add: main_cases)
  qed
  show "flattenable doc \<longleftrightarrow> (\<exists>chars. comprehension doc = Inr chars)"
    by (simp only: comprehension_flattenable)
  show "main loads language keyboard path w =
        Raised (OSError path) (w\<lparr>log := log w @ [Open_read (layout_path language keyboard)]\<rparr>)"
    if "files w (layout_path language keyboard) = Some (Decoded layout) \<and> loads layout = Some doc \<and>
        comprehension doc = Inr chars \<and> files w path = None"
    using that by (simp add: main_cases)
  show "main loads language keyboard path w =
        Raised UnicodeDecodeError
          (w\<lparr>log := log w @ Open_read (layout_path language keyboard) # Open_read path
                  # map Print (diagnostics chars yielded)\<rparr>)"
    if "files w (layout_path language keyboard) = Some (Decoded layout) \<and> loads layout = Some doc \<and>
        comprehension doc = Inr chars \<and> files w path = Some (Undecodable yielded)"
    using that by (simp add: main_cases)
next
  assume h: "files w (layout_path language keyboard) = Some (Decoded layout) \<and> loads layout = Some doc \<and>
    comprehension doc = Inr chars \<and> files w path = Some (Decoded content) \<and>
    [4, 5, 6, 7, 8] = ms @ n # ns \<and> (\<forall>m \<in> set ms. writable w (output_path language m)) \<and>
    \<not> writable w (output_path language n)"
  then have a: "files w (layout_path language keyboard) = Some (Decoded layout)"
    and b: "loads layout = Some doc"
    and c: "comprehension doc = Inr chars" and d: "files w path = Some (Decoded content)"
    and s: "[4, 5, 6, 7, 8] = ms @ n # ns"
    and p: "\<forall>m \<in> set ms. writable w (output_path language m)"
    and q: "\<not> writable w (output_path language n)"
    by blast+
  from a b c d s p q
  show "main loads language keyboard path w =
        Raised (OSError (output_path language n))
          (written language (scanned_storage chars (file_lines content)) ms
             (scanned language keyboard path chars content w))"
    by (rule main_stops)
next
  assume h: "files w (layout_path language keyboard) = Some (Decoded layout) \<and> loads layout = Some doc \<and>
    comprehension doc = Inr chars \<and> files w path = Some (Decoded content) \<and>
    (\<forall>n \<in> {4..8}. writable w (output_path language n))"
  then have a: "files w (layout_path language keyboard) = Some (Decoded layout)"
    and b: "loads layout = Some doc"
    and c: "comprehension doc = Inr chars" and d: "files w path = Some (Decoded content)"
    and p: "\<forall>n \<in> {4..8}. writable w (output_path language n)"
    by blast+
  from a b c d p
  show "main loads language keyboard path w =
        Done \<lparr>storage = scanned_storage chars (file_lines content), valid_chars = chars\<rparr>
          (written language (scanned_storage chars (file_lines content)) [4, 5, 6, 7, 8]
             (scanned language keyboard path chars content w))"
    by (rule main_Done)
next
  have "(\<exists>layout doc chars content.
        files w (layout_path language keyboard) = Some (Decoded layout) \<and>
        loads layout = Some doc \<and> comprehension doc = Inr chars \<and>
        files w path = Some (Decoded content) \<and>
        (\<forall>n \<in> {4..8}. writable w (output_path language n)))
      \<longleftrightarrow> (\<exists>layout doc content.
           files w (layout_path language keyboard) = Some (Decoded layout) \<and>
           loads layout = Some doc \<and> flattenable doc \<and>
           files w path = Some (Decoded content) \<and>
           (\<forall>n \<in> {4..8}. writable w (output_path language n)))"
    using comprehension_flattenable by blast
  with main_success [of loads language keyboard path w]
    exit_status_cases [of "main loads language keyboard path w"]
  show "exit_status (main loads language keyboard path w) =
     (if \<exists>layout doc content.
           files w (layout_path language keyboard) = Some (Decoded layout) \<and>
           loads layout = Some doc \<and> flattenable doc \<and>
           files w path = Some (Decoded content) \<and>
           (\<forall>n \<in> {4..8}. writable w (output_path language n))
      then 0 else 1)"
    by (simp only: split: if_splits) blast
qed

theorem fatal_errors_and_exit_status_witness:
  "main example_loads (lit ''en'') (lit ''qwerty'') (lit ''words.txt'')
       (example_world\<lparr>files := Map.empty\<rparr>)
     = Raised (OSError (lit ''en/qwerty.json'')) (example_world\<lparr>files := Map.empty\<rparr>) \<and>
   main (\<lambda>s. None) (lit ''en'') (lit ''qwerty'') (lit ''words.txt'') example_world
     = Raised JSONDecodeError (example_world\<lparr>log := [Open_read (lit ''en/qwerty.json'')]\<rparr>) \<and>
   main (\<lambda>s. Some JNull) (lit ''en'') (lit ''qwerty'') (lit ''words.txt'') example_world
     = Raised TypeError (example_world\<lparr>log := [Open_read (lit ''en/qwerty.json'')]\<rparr>) \<and>
   main (\<lambda>s. Some (JArr [JArr [JStr (lit ''a'')], JNum (lit ''1'')]))
       (lit ''en'') (lit ''qwerty'') (lit ''words.txt'') example_world
     = Raised TypeError (example_world\<lparr>log := [Open_read (lit ''en/qwerty.json'')]\<rparr>) \<and>
   main example_loads (lit ''en'') (lit ''qwerty'') (lit ''nowords.txt'') example_world
     = Raised (OSError (lit ''nowords.txt''))
         (example_world\<lparr>log := [Open_read (lit ''en/qwerty.json'')]\<rparr>) \<and>
   main example_loads (lit ''en'') (lit ''qwerty'') (lit ''words.txt'')
       (example_world\<lparr>files := (files example_world)
          (lit ''words.txt'' \<mapsto> Undecodable [lit ''abba'' @ [10]])\<rparr>)
     = Raised UnicodeDecodeError
         (example_world\<lparr>files := (files example_world)
            (lit ''words.txt'' \<mapsto> Undecodable [lit ''abba'' @ [10]]),
          log := [Open_read (lit ''en/qwerty.json''), Open_read (lit ''words.txt''),
                  Print (lit ''Skipping abba for not enough unique letters'')]\<rparr>) \<and>
   fst (outcome (main example_loads (lit ''en'') (lit ''qwerty'') (lit ''words.txt'')
       (example_world\<lparr>writable := (\<lambda>p. p \<noteq> lit ''en/length6.json'')\<rparr>)))
     = Some (OSError (lit ''en/length6.json'')) \<and>
   exit_status (main example_loads (lit ''en'') (lit ''qwerty'') (lit ''words.txt'') example_world) = 0"
proof -
  let ?en = "lit ''en''" and ?kb = "lit ''qwerty''" and ?path = "lit ''words.txt''"
  let ?w1 = "example_world\<lparr>files := Map.empty\<rparr>"
  let ?w2 = "example_world\<lparr>files := (files example_world)
               (lit ''words.txt'' \<mapsto> Undecodable [lit ''abba'' @ [10]])\<rparr>"
  let ?w3 = "example_world\<lparr>writable := (\<lambda>p. p \<noteq> lit ''en/length6.json'')\<rparr>"
  let ?opened = "example_world\<lparr>log := [Open_read (lit ''en/qwerty.json'')]\<rparr>"
  have lay: "files example_world (layout_path ?en ?kb) = Some (Decoded example_layout)"
    and lay2: "files ?w2 (layout_path ?en ?kb) = Some (Decoded example_layout)"
    and lay3: "files ?w3 (layout_path ?en ?kb) = Some (Decoded example_layout)"
    by (simp_all add: example_layout_path) (simp_all add: example_world_def lit_def)
  have doc: "example_loads example_layout = Some example_doc"
    by (simp add: example_loads_def)
  have flat: "flattenable example_doc"
    by (simp add: flattenable_def example_doc_def is_container_def)
  have words: "files example_world ?path = Some (Decoded example_words)"
    and words2: "files ?w2 ?path = Some (Undecodable [lit ''abba'' @ [10]])"
    and words3: "files ?w3 ?path = Some (Decoded example_words)"
    and nowords: "files example_world (lit ''nowords.txt'') = None"
    by (simp_all add: example_world_def lit_def)
  have opened: "example_world\<lparr>log := log example_world @ [Open_read (layout_path ?en ?kb)]\<rparr>
                  = ?opened"
    by (simp add: example_layout_path example_world_def)
  have "files ?w1 (layout_path ?en ?kb) = None"
    by simp
  with fatal_errors_and_exit_status [of ?w1 ?en ?kb example_loads ?path]
  have a: "main example_loads ?en ?kb ?path ?w1 = Raised (OSError (lit ''en/qwerty.json'')) ?w1"
    unfolding example_layout_path by blast
  from fatal_errors_and_exit_status
    [where w = example_world and language = ?en and keyboard = ?kb and loads = "\<lambda>s. None"
       and path = ?path and layout = example_layout]
    lay
  have b: "main (\<lambda>s. None) ?en ?kb ?path example_world = Raised JSONDecodeError ?opened"
    unfolding opened by blast
  have "\<not> flattenable JNull"
    by (simp add: flattenable_def)
  with fatal_errors_and_exit_status
    [where w = example_world and language = ?en and keyboard = ?kb and loads = "\<lambda>s. Some JNull"
       and path = ?path and layout = example_layout and doc = JNull]
    lay
  have c: "main (\<lambda>s. Some JNull) ?en ?kb ?path example_world = Raised TypeError ?opened"
    unfolding opened by blast
  have "\<not> flattenable (JArr [JArr [JStr (lit ''a'')], JNum (lit ''1'')])"
    by (simp add: flattenable_def is_container_def)
  with fatal_errors_and_exit_status
    [where w = example_world and language = ?en and keyboard = ?kb
       and loads = "\<lambda>s. Some (JArr [JArr [JStr (lit ''a'')], JNum (lit ''1'')])"
       and path = ?path and layout = example_layout
       and doc = "JArr [JArr [JStr (lit ''a'')], JNum (lit ''1'')]"]
    lay
  have d: "main (\<lambda>s. Some (JArr [JArr [JStr (lit ''a'')], JNum (lit ''1'')])) ?en ?kb ?path
             example_world = Raised TypeError ?opened"
    unfolding opened by blast
  from fatal_errors_and_exit_status
    [where w = example_world and language = ?en and keyboard = ?kb and loads = example_loads
       and path = "lit ''nowords.txt''" and layout = example_layout and doc = example_doc
       and chars = example_chars]
    lay doc example_comprehension nowords
  have e: "main example_loads ?en ?kb (lit ''nowords.txt'') example_world
     = Raised (OSError (lit ''nowords.txt'')) ?opened"
    unfolding opened by blast
  have diag: "diagnostics example_chars [lit ''abba'' @ [10]]
                = [lit ''Skipping abba for not enough unique letters'']"
    by (simp add: diagnostics_def diagnostic_def strip_def isspace_def lit_def example_chars_def
        card_insert_if)
  from fatal_errors_and_exit_status
    [where w = ?w2 and language = ?en and keyboard = ?kb and loads = example_loads
       and path = ?path and layout = example_layout and doc = example_doc
       and chars = example_chars and yielded = "[lit ''abba'' @ [10]]"]
    lay2 doc example_comprehension words2
  have "main example_loads ?en ?kb ?path ?w2
     = Raised UnicodeDecodeError
         (?w2\<lparr>log := log ?w2 @ Open_read (layout_path ?en ?kb) # Open_read ?path
                  # map Print (diagnostics example_chars [lit ''abba'' @ [10]])\<rparr>)"
    by blast
  then have f: "main example_loads ?en ?kb ?path ?w2
     = Raised UnicodeDecodeError
         (?w2\<lparr>log := [Open_read (lit ''en/qwerty.json''), Open_read (lit ''words.txt''),
                  Print (lit ''Skipping abba for not enough unique letters'')]\<rparr>)"
    unfolding diag example_layout_path by (simp add: example_world_def)
  have split: "[4, 5, 6, 7, 8] = [4, 5] @ 6 # [7, 8 :: nat]"
    by simp
  have p6: "output_path ?en 6 = lit ''en/length6.json''"
    by (simp add: output_path_def str_nat.simps lit_def)
  have pre: "\<forall>m \<in> set [4, 5]. writable ?w3 (output_path ?en m)"
    and bad: "\<not> writable ?w3 (output_path ?en 6)"
    by (simp_all add: output_path_def str_nat.simps lit_def)
  from fatal_errors_and_exit_status
    [where w = ?w3 and language = ?en and keyboard = ?kb and loads = example_loads
       and path = ?path and layout = example_layout and doc = example_doc
       and chars = example_chars and content = example_words
       and ms = "[4, 5]" and n = 6 and ns = "[7, 8]"]
    lay3 doc example_comprehension words3 split pre bad
  have "main example_loads ?en ?kb ?path ?w3 =
        Raised (OSError (output_path ?en 6))
          (written ?en (scanned_storage example_chars (file_lines example_words)) [4, 5]
             (scanned ?en ?kb ?path example_chars example_words ?w3))"
    by blast
  then have g: "fst (outcome (main example_loads ?en ?kb ?path ?w3))
                  = Some (OSError (lit ''en/length6.json''))"
    unfolding p6 by simp
  have "\<forall>n \<in> {4..8}. writable example_world (output_path ?en n)"
    by (simp add: example_world_def)
  with lay doc flat words
  have "\<exists>layout doc content.
           files example_world (layout_path ?en ?kb) = Some (Decoded layout) \<and>
           example_loads layout = Some doc \<and> flattenable doc \<and>
           files example_world ?path = Some (Decoded content) \<and>
           (\<forall>n \<in> {4..8}. writable example_world (output_path ?en n))"
    by blast
  with fatal_errors_and_exit_status [of example_world ?en ?kb example_loads ?path]
  have h: "exit_status (main example_loads ?en ?kb ?path example_world) = 0"
    by (simp only: if_True)
  from a b c d e f g h show ?thesis by blast
qed

text \<open>
  The claim as it was stated, that a run in which the layout file loads, the word list is
  there and the five paths are writable ends with status 0, fails: here the word list
  opens but cannot be decoded, and the run ends with status 1.
\<close>

theorem fatal_errors_counterexample:
  "files (example_world\<lparr>files := (files example_world)
            (lit ''words.txt'' \<mapsto> Undecodable [lit ''abba'' @ [10]])\<rparr>) (lit ''en/qwerty.json'')
     = Some (Decoded example_layout) \<and>
   example_loads example_layout = Some example_doc \<and>
   flattenable example_doc \<and>
   files (example_world\<lparr>files := (files example_world)
            (lit ''words.txt'' \<mapsto> Undecodable [lit ''abba'' @ [10]])\<rparr>) (lit ''words.txt'')
     = Some (Undecodable [lit ''abba'' @ [10]]) \<and>
   writable example_world (lit ''en/length4.json'') \<and>
   writable example_world (lit ''en/length5.json'') \<and>
   writable example_world (lit ''en/length6.json'') \<and>
   writable example_world (lit ''en/length7.json'') \<and>
   writable example_world (lit ''en/length8.json'') \<and>
   exit_status (main example_loads (lit ''en'') (lit ''qwerty'') (lit ''words.txt'')
     (example_world\<lparr>files := (files example_world)
        (lit ''words.txt'' \<mapsto> Undecodable [lit ''abba'' @ [10]])\<rparr>)) = 1"
proof -
  let ?w = "example_world\<lparr>files := (files example_world)
              (lit ''words.txt'' \<mapsto> Undecodable [lit ''abba'' @ [10]])\<rparr>"
  have lay: "files ?w (lit ''en/qwerty.json'') = Some (Decoded example_layout)"
    by (simp add: example_world_def lit_def)
  have doc: "example_loads example_layout = Some example_doc"
    by (simp add: example_loads_def)
  have flat: "flattenable example_doc"
    by (simp add: flattenable_def example_doc_def is_container_def)
  have words: "files ?w (lit ''words.txt'') = Some (Undecodable [lit ''abba'' @ [10]])"
    by simp
  have wr: "writable example_world p" for p
    by (simp add: example_world_def)
  have "main example_loads (lit ''en'') (lit ''qwerty'') (lit ''words.txt'') ?w
          = Raised UnicodeDecodeError
              (?w\<lparr>log := log ?w @ Open_read (layout_path (lit ''en'') (lit ''qwerty''))
                       # Open_read (lit ''words.txt'')
                       # map Print (diagnostics example_chars [lit ''abba'' @ [10]])\<rparr>)"
    using lay doc example_comprehension words
    by (simp only: main_cases example_layout_path option.case sum.case content.case)
  then have "exit_status (main example_loads (lit ''en'') (lit ''qwerty'') (lit ''words.txt'') ?w) = 1"
    by simp
  with lay doc flat words wr show ?thesis by blast
qed

lemma scan_line_valid_chars:
  "scan_line raw fr w = Done fr' w' \<Longrightarrow> valid_chars fr' = valid_chars fr"
  by (auto simp: scan_line_def Let_def split: if_splits option.splits)

lemma scan_valid_chars:
  "scan raws fr w = Done fr' w' \<Longrightarrow> valid_chars fr' = valid_chars fr"
proof (induction raws arbitrary: fr w)
  case Nil
  then show ?case by simp
next
  case (Cons raw raws)
  from Cons.prems obtain fr1 w1 where
    step: "scan_line raw fr w = Done fr1 w1" and rest: "scan raws fr1 w1 = Done fr' w'"
    by (auto split: run.splits)
  from Cons.IH [OF rest] scan_line_valid_chars [OF step] show ?case by simp
qed

lemma write_bucket_frame: "write_bucket language n fr w = Done fr' w' \<Longrightarrow> fr' = fr"
  by (auto simp: write_bucket_def split: sum.splits option.splits)

lemma write_buckets_frame: "write_buckets language ns fr w = Done fr' w' \<Longrightarrow> fr' = fr"
proof (induction ns arbitrary: fr w)
  case Nil
  then show ?case by simp
next
  case (Cons n ns)
  from Cons.prems obtain fr1 w1 where
    step: "write_bucket language n fr w = Done fr1 w1"
    and rest: "write_buckets language ns fr1 w1 = Done fr' w'"
    by (auto split: run.splits)
  from Cons.IH [OF rest] write_bucket_frame [OF step] show ?case by simp
qed

lemma no_open_read_prints: "filter is_open_read (map Print xs) = []"
  by (induction xs) (simp_all add: is_open_read_def)

lemma no_open_read_file_events:
  "filter is_open_read (concat (map (\<lambda>n. file_events language n (f n)) ns)) = []"
  by (induction ns) (simp_all add: is_open_read_def file_events_def)

lemma main_Done_elim:
  assumes "main loads language keyboard path w = Done fr' w'"
  shows "\<exists>layout doc chars content.
           files w (layout_path language keyboard) = Some (Decoded layout) \<and> loads layout = Some doc \<and>
           comprehension doc = Inr chars \<and> files w path = Some (Decoded content) \<and>
           fr' = \<lparr>storage = scanned_storage chars (file_lines content), valid_chars = chars\<rparr> \<and>
           w' = written language (scanned_storage chars (file_lines content)) [4, 5, 6, 7, 8]
                  (scanned language keyboard path chars content w)"
proof -
  from assms have "exit_status (main loads language keyboard path w) = 0" by simp
  then obtain layout doc chars content where
    a: "files w (layout_path language keyboard) = Some (Decoded layout)" and b: "loads layout = Some doc"
    and c: "comprehension doc = Inr chars" and d: "files w path = Some (Decoded content)"
    and e: "\<forall>n \<in> {4..8}. writable w (output_path language n)"
    unfolding main_success by blast
  have "main loads language keyboard path w =
           Done \<lparr>storage = scanned_storage chars (file_lines content), valid_chars = chars\<rparr>
             (written language (scanned_storage chars (file_lines content)) [4, 5, 6, 7, 8]
                (scanned language keyboard path chars content w))"
    using a b c d e by (rule main_Done)
  with assms a b c d show ?thesis by simp
qed

text \<open>
  C9. No iteration of the scan loop, and so no scan, changes the valid-character collection,
  and the writer changes no local variable. In a run that completes, the collection at the
  end is the one the loader returned, and the run opened for reading the layout file first,
  then the word list, and nothing after: the collection is loaded once, before the scan.
\<close>

theorem valid_chars_unchanged:
  "(scan_line raw fr w = Done fr' w' \<longrightarrow> valid_chars fr' = valid_chars fr) \<and>
   (scan raws fr w = Done fr' w' \<longrightarrow> valid_chars fr' = valid_chars fr) \<and>
   (write_buckets language ns fr w = Done fr' w' \<longrightarrow> fr' = fr) \<and>
   (main loads language keyboard path w = Done fr' w' \<longrightarrow>
      fst (load_valid_chars loads language keyboard w) = Inr (valid_chars fr') \<and>
      (\<exists>rest. log w' = log w @ Open_read (layout_path language keyboard) # Open_read path # rest
              \<and> filter is_open_read rest = []))"
proof (intro conjI impI)
  show "valid_chars fr' = valid_chars fr" if "scan_line raw fr w = Done fr' w'"
    using that by (rule scan_line_valid_chars)
  show "valid_chars fr' = valid_chars fr" if "scan raws fr w = Done fr' w'"
    using that by (rule scan_valid_chars)
  show "fr' = fr" if "write_buckets language ns fr w = Done fr' w'"
    using that by (rule write_buckets_frame)
  assume "main loads language keyboard path w = Done fr' w'"
  from main_Done_elim [OF this] obtain layout doc chars content where
    a: "files w (layout_path language keyboard) = Some (Decoded layout)" and b: "loads layout = Some doc"
    and c: "comprehension doc = Inr chars"
    and fr': "fr' = \<lparr>storage = scanned_storage chars (file_lines content), valid_chars = chars\<rparr>"
    and w': "w' = written language (scanned_storage chars (file_lines content)) [4, 5, 6, 7, 8]
                  (scanned language keyboard path chars content w)"
    by blast
  show "fst (load_valid_chars loads language keyboard w) = Inr (valid_chars fr')"
    using a b c by (simp add: load_valid_chars_eq fr')
  let ?rest = "map Print (diagnostics chars (file_lines content))
       @ concat (map (\<lambda>n. file_events language n
                        (the (map_of (scanned_storage chars (file_lines content)) n)))
                  [4, 5, 6, 7, 8])"
  have "log w' = log w @ Open_read (layout_path language keyboard) # Open_read path # ?rest"
    unfolding w' log_written by (simp add: scanned_def)
  moreover have "filter is_open_read ?rest = []"
    by (simp only: filter_append no_open_read_prints no_open_read_file_events append_Nil)
  ultimately show "\<exists>rest. log w' = log w @ Open_read (layout_path language keyboard)
                              # Open_read path # rest \<and> filter is_open_read rest = []"
    by blast
qed

theorem valid_chars_unchanged_witness:
  "\<exists>fr' w'. main example_loads (lit ''en'') (lit ''qwerty'') (lit ''words.txt'') example_world
               = Done fr' w' \<and>
     valid_chars fr' = example_chars \<and>
     fst (load_valid_chars example_loads (lit ''en'') (lit ''qwerty'') example_world)
       = Inr (valid_chars fr')"
proof -
  let ?en = "lit ''en''" and ?kb = "lit ''qwerty''" and ?path = "lit ''words.txt''"
  let ?fr = "\<lparr>storage = scanned_storage example_chars (file_lines example_words),
              valid_chars = example_chars\<rparr>"
  let ?w = "written ?en (scanned_storage example_chars (file_lines example_words)) [4, 5, 6, 7, 8]
              (scanned ?en ?kb ?path example_chars example_words example_world)"
  have lay: "files example_world (layout_path ?en ?kb) = Some (Decoded example_layout)"
    by (simp add: example_layout_path) (simp add: example_world_def lit_def)
  have doc: "example_loads example_layout = Some example_doc"
    by (simp add: example_loads_def)
  have words: "files example_world ?path = Some (Decoded example_words)"
    by (simp add: example_world_def lit_def)
  have wr: "\<forall>n \<in> {4..8}. writable example_world (output_path ?en n)"
    by (simp add: example_world_def)
  have run: "main example_loads ?en ?kb ?path example_world = Done ?fr ?w"
    using lay doc example_comprehension words wr by (rule main_Done)
  with valid_chars_unchanged
    [where loads = example_loads and language = ?en and keyboard = ?kb and path = ?path
       and w = example_world and fr' = ?fr and w' = ?w]
  have "fst (load_valid_chars example_loads ?en ?kb example_world) = Inr (valid_chars ?fr)"
    by blast
  with run show ?thesis by auto
qed

lemma main_no_KeyError:
  "fst (outcome (main loads language keyboard path w)) \<noteq> Some (KeyError k)"
  unfolding main_outcome
  by (auto split: option.splits sum.splits list.splits content.splits dest: comprehension_error)

lemma initial_keys: "fst ` set initial_storage = {4..8}"
  by (simp add: initial_storage_def range_4_8)

text \<open>
  C10. An iteration of the scan loop can only fail by looking up a length from 4 to 8 that
  is not a key of the bucket map. The map starts with exactly the keys 4 to 8, an
  iteration that starts with these keys ends normally with the same keys, so the scan always
  ends normally, and no run of main ends in a \<open>KeyError\<close>.
\<close>

theorem bucket_lookup_never_fails:
  "(scan_line raw fr w = Raised e w' \<longrightarrow>
      e = KeyError (length (strip raw)) \<and> length (strip raw) \<in> {4..8} \<and>
      length (strip raw) \<notin> fst ` set (storage fr)) \<and>
   fst ` set initial_storage = {4..8} \<and>
   (fst ` set (storage fr) = {4..8} \<longrightarrow>
      (\<exists>fr1 w1. scan_line raw fr w = Done fr1 w1 \<and> fst ` set (storage fr1) = {4..8})) \<and>
   (\<exists>fr1 w1. scan raws \<lparr>storage = initial_storage, valid_chars = chars\<rparr> w = Done fr1 w1) \<and>
   (\<forall>k. fst (outcome (main loads language keyboard path w)) \<noteq> Some (KeyError k))"
proof (intro conjI impI allI)
  assume r: "scan_line raw fr w = Raised e w'"
  then show "e = KeyError (length (strip raw))"
    by (auto simp: scan_line_def Let_def split: if_splits option.splits)
  from r show "length (strip raw) \<in> {4..8}"
    by (auto simp: scan_line_def Let_def split: if_splits option.splits)
  from r have "map_of (storage fr) (length (strip raw)) = None"
    by (auto simp: scan_line_def Let_def split: if_splits option.splits)
  then show "length (strip raw) \<notin> fst ` set (storage fr)"
    by (simp add: map_of_eq_None_iff)
next
  show "fst ` set initial_storage = {4..8}"
    by (rule initial_keys)
next
  assume keys: "fst ` set (storage fr) = {4..8}"
  then have key: "length (strip raw) \<in> fst ` set (storage fr)
                    \<or> \<not> accepted (valid_chars fr) (strip raw)"
    using accepted_range by blast
  let ?fr1 = "if accepted (valid_chars fr) (strip raw)
           then fr\<lparr>storage := AList.update (length (strip raw))
                     (the (map_of (storage fr) (length (strip raw))) @ [strip raw]) (storage fr)\<rparr>
           else fr"
  have "fst ` set (storage ?fr1) = {4..8}"
    using keys accepted_range [of "valid_chars fr" "strip raw"] by (auto simp: dom_update)
  with scan_line_step [OF key, of w]
  show "\<exists>fr1 w1. scan_line raw fr w = Done fr1 w1 \<and> fst ` set (storage fr1) = {4..8}"
    by blast
next
  show "\<exists>fr1 w1. scan raws \<lparr>storage = initial_storage, valid_chars = chars\<rparr> w = Done fr1 w1"
    by (simp add: scan_initial)
next
  fix k
  show "fst (outcome (main loads language keyboard path w)) \<noteq> Some (KeyError k)"
    by (rule main_no_KeyError)
qed

theorem bucket_lookup_never_fails_witness:
  "\<exists>fr1 w1. scan_line (lit ''cabbed'' @ [10])
               \<lparr>storage = initial_storage, valid_chars = example_chars\<rparr> example_world
             = Done fr1 w1 \<and> fst ` set (storage fr1) = {4..8}"
proof -
  let ?fr = "\<lparr>storage = initial_storage, valid_chars = example_chars\<rparr>"
  have "fst ` set (storage ?fr) = {4..8}"
    by (simp add: initial_keys)
  with bucket_lookup_never_fails [of "lit ''cabbed'' @ [10]" ?fr example_world]
  show ?thesis by blast
qed

end
